theory Spec2Isabelle
  imports Complex_Main "HOL-Library.Word"
begin

unbundle bit_operations_syntax

section \<open>Buffers and requests\<close>

text \<open>
  A Node.js \<^verbatim>\<open>Buffer\<close> is a sequence of octets.  JavaScript numbers that the code uses
  as integers (lengths, ports, message ids) are \<^typ>\<open>int\<close> or \<^typ>\<open>nat\<close>.
\<close>

type_synonym byte = "8 word"
type_synonym buffer = "byte list"

text \<open>
  \<^verbatim>\<open>class HCIRequest\<close> (HCIRequest.ts): the fields set by the constructor and the two
  defaults \<^verbatim>\<open>Version = 2\<close>, \<^verbatim>\<open>ProtocolVersion = 1\<close>.  \<^verbatim>\<open>Timestamp\<close> is \<^verbatim>\<open>Date.now()\<close>
  and is passed in; \<^verbatim>\<open>responseID || null\<close> turns a missing or zero id into \<^verbatim>\<open>null\<close>.
\<close>

record HCIRequest =
  RequestID :: int
  ResponseID :: "int option"
  Version :: int
  ProtocolVersion :: int
  Data :: buffer
  Urgent :: bool
  Timestamp :: int

definition new_HCIRequest :: "int \<Rightarrow> buffer \<Rightarrow> bool \<Rightarrow> int option \<Rightarrow> int \<Rightarrow> HCIRequest" where
  "new_HCIRequest requestID data urgent responseID now =
     \<lparr>RequestID = requestID,
      ResponseID = (if responseID = Some 0 then None else responseID),
      Version = 2, ProtocolVersion = 1,
      Data = data, Urgent = urgent, Timestamp = now\<rparr>"

section \<open>Send queue\<close>

text \<open>\<^verbatim>\<open>Array.prototype.splice(start, 0, item)\<close> for \<open>0 \<le> start \<le> length\<close>.\<close>

definition splice0 :: "nat \<Rightarrow> 'a \<Rightarrow> 'a list \<Rightarrow> 'a list" where
  "splice0 start item xs = take start xs @ item # drop start xs"

text \<open>
  The \<^verbatim>\<open>for\<close> loop of \<^verbatim>\<open>EclipseHCI.addToQueue\<close>: \<open>i\<close> is the loop index and
  \<open>insertIndex\<close> the variable of that name; the loop breaks at the first request that is
  not urgent.
\<close>

function addToQueue_scan :: "HCIRequest list \<Rightarrow> nat \<Rightarrow> nat \<Rightarrow> nat" where
  "addToQueue_scan messageQueue i insertIndex =
     (if i < length messageQueue then
        (if Urgent (messageQueue ! i) then addToQueue_scan messageQueue (i + 1) (i + 1)
         else insertIndex)
      else insertIndex)"
  by pat_completeness auto
termination
  by (relation "measure (\<lambda>(q, i, ins). length q - i)") auto

declare addToQueue_scan.simps [simp del]

definition addToQueue :: "HCIRequest \<Rightarrow> HCIRequest list \<Rightarrow> HCIRequest list" where
  "addToQueue request messageQueue =
     (if Urgent request
      then splice0 (addToQueue_scan messageQueue 0 0) request messageQueue
      else messageQueue @ [request])"

text \<open>\<^verbatim>\<open>Array.prototype.findIndex\<close>; \<open>None\<close> stands for the result \<open>-1\<close>.\<close>

fun findIndex :: "('a \<Rightarrow> bool) \<Rightarrow> 'a list \<Rightarrow> nat option" where
  "findIndex P [] = None"
| "findIndex P (x # xs) = (if P x then Some 0 else map_option Suc (findIndex P xs))"

text \<open>\<^verbatim>\<open>EclipseHCI.enqueue\<close> of the second client (the one with \<^verbatim>\<open>handleData\<close>).\<close>

definition enqueue :: "HCIRequest \<Rightarrow> HCIRequest list \<Rightarrow> HCIRequest list" where
  "enqueue req queue =
     (if Urgent req then
        (case findIndex (\<lambda>r. \<not> Urgent r) queue of
           None \<Rightarrow> queue @ [req]
         | Some idx \<Rightarrow> splice0 idx req queue)
      else queue @ [req])"

text \<open>Enqueuing a sequence of requests, first to last.\<close>

definition addAllToQueue :: "HCIRequest list \<Rightarrow> HCIRequest list \<Rightarrow> HCIRequest list" where
  "addAllToQueue requests messageQueue = foldl (\<lambda>q r. addToQueue r q) messageQueue requests"

definition enqueueAll :: "HCIRequest list \<Rightarrow> HCIRequest list \<Rightarrow> HCIRequest list" where
  "enqueueAll reqs queue = foldl (\<lambda>q r. enqueue r q) queue reqs"

section \<open>Node.js buffer primitives\<close>

text \<open>
  Exceptions: the \<^verbatim>\<open>RangeError\<close> of the buffer primitives, and \<^verbatim>\<open>new Error(message)\<close>
  with the fixed part of its message (the interpolated value is left out).
\<close>

datatype error = RangeError | Error string

text \<open>
  \<^verbatim>\<open>buf.writeUInt16BE(value)\<close> and \<^verbatim>\<open>buf.writeUInt8(value)\<close> throw a \<^verbatim>\<open>RangeError\<close>
  when the value is outside the range of the field; otherwise they store the big-endian
  octets.  The model returns the octets written.
\<close>

definition writeUInt16BE :: "int \<Rightarrow> error + buffer" where
  "writeUInt16BE v =
     (if 0 \<le> v \<and> v \<le> 65535 then Inr [word_of_int (v div 256), word_of_int (v mod 256)]
      else Inl RangeError)"

definition writeUInt8 :: "int \<Rightarrow> error + buffer" where
  "writeUInt8 v = (if 0 \<le> v \<and> v \<le> 255 then Inr [word_of_int v] else Inl RangeError)"

text \<open>\<^verbatim>\<open>buf.readUInt16BE(offset)\<close> throws a \<^verbatim>\<open>RangeError\<close> when two octets are not there.\<close>

definition readUInt16BE :: "buffer \<Rightarrow> nat \<Rightarrow> error + nat" where
  "readUInt16BE buf offset =
     (if offset + 2 \<le> length buf
      then Inr (unat (buf ! offset) * 256 + unat (buf ! (offset + 1)))
      else Inl RangeError)"

definition readUInt8 :: "buffer \<Rightarrow> nat \<Rightarrow> error + nat" where
  "readUInt8 buf offset =
     (if offset + 1 \<le> length buf then Inr (unat (buf ! offset)) else Inl RangeError)"

text \<open>
  \<^verbatim>\<open>buf.subarray(start, end)\<close>: a negative index counts from the end, and both indices
  are clamped to the buffer.
\<close>

definition clampIndex :: "int \<Rightarrow> nat \<Rightarrow> nat" where
  "clampIndex i len = (if i < 0 then nat (max 0 (int len + i)) else min (nat i) len)"

definition subarray :: "buffer \<Rightarrow> int \<Rightarrow> int \<Rightarrow> buffer" where
  "subarray buf start end =
     (let s = clampIndex start (length buf); e = clampIndex end (length buf)
      in take (e - s) (drop s buf))"

definition subarray_from :: "buffer \<Rightarrow> int \<Rightarrow> buffer" where
  "subarray_from buf start = subarray buf start (int (length buf))"

text \<open>\<^verbatim>\<open>buf.indexOf(pattern)\<close> for a non-empty pattern; \<open>None\<close> stands for \<open>-1\<close>.\<close>

fun indexOf :: "buffer \<Rightarrow> buffer \<Rightarrow> nat option" where
  "indexOf [] pat = None"
| "indexOf (b # bs) pat =
     (if take (length pat) (b # bs) = pat then Some 0 else map_option Suc (indexOf bs pat))"

definition startBytes :: buffer where
  "startBytes = [0x5A, 0x0F]"

definition endBytes :: buffer where
  "endBytes = [0x2E, 0x8D]"

section \<open>The two clients\<close>

text \<open>
  The repository holds two \<^verbatim>\<open>EclipseHCI\<close> classes.  The first reassembles with
  \<^verbatim>\<open>handleMessage\<close>, queues with \<^verbatim>\<open>addToQueue\<close> and dispatches with \<^verbatim>\<open>processQueue\<close>;
  the second (with login and reconnect) reassembles with \<^verbatim>\<open>handleData\<close>, queues with
  \<^verbatim>\<open>enqueue\<close> and dispatches with \<^verbatim>\<open>drain\<close>.  A timer handle records its period; a socket
  is a handle.  The address, port and login options, which the methods below do not read,
  are left out of the records.
\<close>

datatype timer = Interval nat | Timeout nat

record EclipseHCI =
  connected :: bool
  socket :: "nat option"
  buffer :: buffer
  messageQueue :: "HCIRequest list"
  queueProcessor :: "timer option"
  rateLimitMs :: nat
  isProcessingQueue :: bool

datatype ConnectionState = disconnected | connecting | connected_state | authenticated

record EclipseHCI_v2 =
  opts_rateLimitMs :: nat
  opts_reconnect :: bool
  opts_reconnectDelayMs :: nat
  socket_v2 :: "nat option"
  buffer_v2 :: buffer
  queue :: "HCIRequest list"
  timer :: "timer option"
  processing :: bool
  reconnectTimer :: "timer option"
  state :: ConnectionState
  sessionToken :: nat

subsection \<open>Dispatch\<close>

text \<open>
  \<^verbatim>\<open>sendHCIRequest\<close> of the first client: the list of buffers passed to
  \<^verbatim>\<open>socket.write\<close> (it writes \<^verbatim>\<open>request.Data\<close>; a failing write is caught and logged).
\<close>

definition sendHCIRequest :: "EclipseHCI \<Rightarrow> HCIRequest \<Rightarrow> buffer list" where
  "sendHCIRequest s request =
     (if socket s = None \<or> \<not> connected s then [] else [Data request])"

text \<open>
  \<^verbatim>\<open>processQueue\<close>: one timer tick of the first client.  The result is the new state and
  the buffers written to the socket during the tick.
\<close>

definition processQueue :: "EclipseHCI \<Rightarrow> EclipseHCI \<times> buffer list" where
  "processQueue s =
     (if isProcessingQueue s \<or> \<not> connected s \<or> length (messageQueue s) = 0 then (s, [])
      else
        let s1 = s\<lparr>isProcessingQueue := True\<rparr>;
            request = hd (messageQueue s1);
            s2 = s1\<lparr>messageQueue := tl (messageQueue s1)\<rparr>;
            written = sendHCIRequest s2 request
        in (s2\<lparr>isProcessingQueue := False\<rparr>, written))"

text \<open>\<^verbatim>\<open>HCI.buildPacket\<close> of the second client (its \<^verbatim>\<open>requestId\<close> parameter is unused).\<close>

definition buildPacket :: "int \<Rightarrow> buffer \<Rightarrow> error + buffer" where
  "buildPacket requestId payload =
     (let total = 4 + int (length payload) + 2 in
      case writeUInt16BE total of
        Inl e \<Rightarrow> Inl e
      | Inr len \<Rightarrow> Inr (startBytes @ len @ payload @ endBytes))"

text \<open>
  \<^verbatim>\<open>drain\<close>: one timer tick of the second client.  When \<^verbatim>\<open>req.getRequest()\<close> throws,
  nothing is written and \<^verbatim>\<open>processing\<close> is left set.
\<close>

definition drain :: "EclipseHCI_v2 \<Rightarrow> EclipseHCI_v2 \<times> buffer list \<times> error option" where
  "drain s =
     (if processing s \<or> socket_v2 s = None \<or> length (queue s) = 0 then (s, [], None)
      else
        let s1 = s\<lparr>processing := True\<rparr>;
            req = hd (queue s1);
            s2 = s1\<lparr>queue := tl (queue s1)\<rparr>
        in case buildPacket (RequestID req) (Data req) of
             Inl e \<Rightarrow> (s2, [], Some e)
           | Inr packet \<Rightarrow> (s2\<lparr>processing := False\<rparr>, [packet], None))"

text \<open>
  Enqueue pressure: between two ticks of the interval timer any number of requests may be
  enqueued.  \<open>run\<close> replays a sequence of such events and collects every buffer written.
\<close>

datatype event = Tick | Enqueue HCIRequest

fun is_Tick :: "event \<Rightarrow> bool" where
  "is_Tick Tick = True"
| "is_Tick (Enqueue r) = False"

fun run :: "event list \<Rightarrow> EclipseHCI \<Rightarrow> EclipseHCI \<times> buffer list" where
  "run [] s = (s, [])"
| "run (Tick # evs) s =
     (let (s1, w) = processQueue s; (s2, ws) = run evs s1 in (s2, w @ ws))"
| "run (Enqueue r # evs) s = run evs (s\<lparr>messageQueue := addToQueue r (messageQueue s)\<rparr>)"

fun run_v2 :: "event list \<Rightarrow> EclipseHCI_v2 \<Rightarrow> EclipseHCI_v2 \<times> buffer list" where
  "run_v2 [] s = (s, [])"
| "run_v2 (Tick # evs) s =
     (let (s1, w, e) = drain s; (s2, ws) = run_v2 evs s1 in (s2, w @ ws))"
| "run_v2 (Enqueue r # evs) s = run_v2 evs (s\<lparr>queue := enqueue r (queue s)\<rparr>)"

subsection \<open>Close and error\<close>

definition stopQueueProcessor :: "EclipseHCI \<Rightarrow> EclipseHCI" where
  "stopQueueProcessor s =
     (if queueProcessor s \<noteq> None then s\<lparr>queueProcessor := None\<rparr> else s)"

text \<open>The \<^verbatim>\<open>'close'\<close> and \<^verbatim>\<open>'error'\<close> listeners installed by \<^verbatim>\<open>setupSocketHandlers\<close>.\<close>

definition on_close :: "EclipseHCI \<Rightarrow> EclipseHCI" where
  "on_close s = stopQueueProcessor (s\<lparr>connected := False, socket := None\<rparr>)"

definition on_error :: "EclipseHCI \<Rightarrow> EclipseHCI" where
  "on_error s = stopQueueProcessor (s\<lparr>connected := False, socket := None\<rparr>)"

definition clearQueue :: "EclipseHCI \<Rightarrow> EclipseHCI" where
  "clearQueue s = s\<lparr>messageQueue := []\<rparr>"

definition stopQueue :: "EclipseHCI_v2 \<Rightarrow> EclipseHCI_v2" where
  "stopQueue s = s\<lparr>timer := None\<rparr>"

text \<open>
  \<^verbatim>\<open>handleClose\<close> of the second client, the \<^verbatim>\<open>'close'\<close> listener.  Its \<^verbatim>\<open>'error'\<close>
  listener only logs; Node.js emits \<^verbatim>\<open>'close'\<close> directly after \<^verbatim>\<open>'error'\<close>, which
  \<open>socket_error_v2\<close> replays.
\<close>

definition handleClose :: "bool \<Rightarrow> EclipseHCI_v2 \<Rightarrow> EclipseHCI_v2" where
  "handleClose hadError s =
     (let s1 = s\<lparr>state := disconnected, sessionToken := 0\<rparr>;
          s2 = stopQueue s1;
          s3 = s2\<lparr>socket_v2 := None\<rparr>
      in if opts_reconnect s3 \<and> reconnectTimer s3 = None
         then s3\<lparr>reconnectTimer := Some (Timeout (opts_reconnectDelayMs s3))\<rparr>
         else s3)"

definition on_error_v2 :: "EclipseHCI_v2 \<Rightarrow> EclipseHCI_v2" where
  "on_error_v2 s = s"

definition socket_error_v2 :: "EclipseHCI_v2 \<Rightarrow> EclipseHCI_v2" where
  "socket_error_v2 s = handleClose True (on_error_v2 s)"

section \<open>Frame reassembly\<close>

subsection \<open>\<^verbatim>\<open>handleMessage\<close> (first client)\<close>

text \<open>
  One pass through the body of the \<^verbatim>\<open>while\<close> loop of \<^verbatim>\<open>handleMessage\<close>, for the
  current buffer: the loop breaks and keeps a buffer, continues with a shorter buffer
  after a failed end-marker check, or passes a complete message to \<^verbatim>\<open>processMessage\<close>
  and continues behind it.  \<open>Throw\<close> is an exception leaving the loop.
\<close>

datatype iteration = Break buffer | Skip buffer | Deliver buffer buffer | Throw error buffer

definition handleMessage_iter :: "buffer \<Rightarrow> iteration" where
  "handleMessage_iter buf =
     (case indexOf buf startBytes of
        None \<Rightarrow> Break buf
      | Some startIndex \<Rightarrow>
          let buf1 = (if startIndex > 0 then subarray_from buf (int startIndex) else buf) in
          if length buf1 < length startBytes + 2 then Break buf1
          else
            case readUInt16BE buf1 (length startBytes) of
              Inl e \<Rightarrow> Throw e buf1
            | Inr lengthField \<Rightarrow>
                if length buf1 < lengthField then Break buf1
                else
                  let completeMessage = subarray buf1 0 (int lengthField);
                      expectedEndStart = int lengthField - int (length endBytes);
                      actualEndBytes = subarray_from completeMessage expectedEndStart
                  in if actualEndBytes \<noteq> endBytes
                     then Skip (subarray_from buf1 (int (length startBytes)))
                     else Deliver completeMessage (subarray_from buf1 (int lengthField)))"

lemma subarray_from_nat [simp]: "subarray_from buf (int n) = drop n buf"
  by (simp add: subarray_from_def subarray_def clampIndex_def Let_def min_def)

lemma subarray_from_numeral [simp]: "subarray_from buf (numeral k) = drop (numeral k) buf"
  using subarray_from_nat [of buf "numeral k"] by simp

lemma subarray_0_nat [simp]: "subarray buf 0 (int n) = take n buf"
  by (simp add: subarray_def clampIndex_def Let_def min_def)

lemma subarray_from_neg:
  "i < 0 \<Longrightarrow> subarray_from buf i = drop (nat (int (length buf) + i)) buf"
  by (simp add: subarray_from_def subarray_def clampIndex_def Let_def max_def)

lemma length_endBytes [simp]: "length endBytes = 2"
  by (simp add: endBytes_def)

lemma length_startBytes [simp]: "length startBytes = 2"
  by (simp add: startBytes_def)

lemma actualEndBytes_length:
  assumes "lengthField \<le> length buf1"
    and "subarray_from (take lengthField buf1) (int lengthField - 2) = endBytes"
  shows "2 \<le> lengthField"
proof (rule ccontr)
  assume "\<not> 2 \<le> lengthField"
  then have neg: "int lengthField - 2 < 0" by simp
  have "length (subarray_from (take lengthField buf1) (int lengthField - 2)) \<le> lengthField"
    using assms(1) by (simp add: subarray_from_neg [OF neg])
  with assms(2) \<open>\<not> 2 \<le> lengthField\<close> show False by simp
qed

lemma handleMessage_iter_Skip_length:
  "handleMessage_iter buf = Skip b \<Longrightarrow> length b < length buf"
  by (auto simp: handleMessage_iter_def Let_def split: option.splits if_splits sum.splits)

lemma handleMessage_iter_Deliver_length:
  "handleMessage_iter buf = Deliver m b \<Longrightarrow> length b < length buf"
  by (auto simp: handleMessage_iter_def Let_def split: option.splits if_splits sum.splits
      dest!: actualEndBytes_length [rotated])

text \<open>
  The \<^verbatim>\<open>while (this.buffer.length > 0)\<close> loop: the messages passed to
  \<^verbatim>\<open>processMessage\<close>, in order, the buffer left, and the exception if one left the loop.
\<close>

function handleMessage_loop :: "buffer \<Rightarrow> buffer list \<times> buffer \<times> error option" where
  "handleMessage_loop buf =
     (if length buf > 0 then
        (case handleMessage_iter buf of
           Break b \<Rightarrow> ([], b, None)
         | Skip b \<Rightarrow> handleMessage_loop b
         | Deliver m b \<Rightarrow> (case handleMessage_loop b of (fs, r, e) \<Rightarrow> (m # fs, r, e))
         | Throw e b \<Rightarrow> ([], b, Some e))
      else ([], buf, None))"
  by pat_completeness auto
termination
  by (relation "measure length")
    (auto simp: handleMessage_iter_Skip_length handleMessage_iter_Deliver_length)

declare handleMessage_loop.simps [simp del]

text \<open>
  \<^verbatim>\<open>handleMessage(data)\<close>: append, then run the loop.  The second component lists the
  messages handed to \<^verbatim>\<open>processMessage\<close> during the call.
\<close>

definition handleMessage :: "buffer \<Rightarrow> EclipseHCI \<Rightarrow> EclipseHCI \<times> buffer list \<times> error option" where
  "handleMessage data s =
     (case handleMessage_loop (buffer s @ data) of
        (frames, b, e) \<Rightarrow> (s\<lparr>buffer := b\<rparr>, frames, e))"

text \<open>Successive \<^verbatim>\<open>'data'\<close> events, one per chunk.\<close>

fun feed :: "buffer list \<Rightarrow> EclipseHCI \<Rightarrow> EclipseHCI \<times> buffer list" where
  "feed [] s = (s, [])"
| "feed (c # cs) s =
     (case handleMessage c s of
        (s1, frames, e) \<Rightarrow> (case feed cs s1 of (s2, frames') \<Rightarrow> (s2, frames @ frames')))"

text \<open>
  Proof device: what one pass does once the start marker is at offset 0 of \<open>b1\<close>.
\<close>

definition check_end :: "buffer \<Rightarrow> nat \<Rightarrow> iteration" where
  "check_end b1 lengthField =
     (if length b1 < lengthField then Break b1
      else if 2 \<le> lengthField \<and> drop (lengthField - 2) (take lengthField b1) = endBytes
        then Deliver (take lengthField b1) (drop lengthField b1)
        else Skip (drop 2 b1))"

definition at_front :: "buffer \<Rightarrow> iteration" where
  "at_front b1 =
     (if length b1 < 4 then Break b1
      else check_end b1 (unat (b1 ! 2) * 256 + unat (b1 ! 3)))"

text \<open>
  A well-formed frame: start marker, a length field equal to the byte count, end marker.
\<close>

definition valid_frame :: "buffer \<Rightarrow> bool" where
  "valid_frame v =
     (take 2 v = startBytes \<and> readUInt16BE v 2 = Inr (length v)
      \<and> drop (length v - 2) v = endBytes)"

subsection \<open>\<^verbatim>\<open>processMessage\<close> (first client)\<close>

record Flags =
  flag_E :: bool
  flag_M :: bool
  flag_U :: bool
  flag_G :: bool
  flag_S :: bool
  flag_N :: bool
  flag_Reserved1 :: bool
  flag_Reserved2 :: bool

datatype HCIVersion = HCIv1 | HCIv2

record Header =
  messageID :: nat
  flags :: Flags
  hciVersion :: HCIVersion
  protocolVersion :: "nat option"

text \<open>
  What \<^verbatim>\<open>processMessage\<close> does with a message: it throws (a read out of range), discards
  it (length mismatch, too short), returns at \<^verbatim>\<open>'Message contains no payload'\<close> without
  calling the handler, or calls \<^verbatim>\<open>handleMessageByID\<close> with the header and the payload.
\<close>

datatype processed =
    Thrown error
  | LengthMismatch
  | TooShort
  | NoPayload Header
  | Dispatched Header buffer

definition decodeFlags :: "nat \<Rightarrow> Flags" where
  "decodeFlags flagsByte =
     \<lparr>flag_E = ((word_of_nat flagsByte :: byte) AND 0x01 \<noteq> 0),
      flag_M = ((word_of_nat flagsByte :: byte) AND 0x02 \<noteq> 0),
      flag_U = ((word_of_nat flagsByte :: byte) AND 0x04 \<noteq> 0),
      flag_G = ((word_of_nat flagsByte :: byte) AND 0x08 \<noteq> 0),
      flag_S = ((word_of_nat flagsByte :: byte) AND 0x10 \<noteq> 0),
      flag_N = ((word_of_nat flagsByte :: byte) AND 0x20 \<noteq> 0),
      flag_Reserved1 = ((word_of_nat flagsByte :: byte) AND 0x40 \<noteq> 0),
      flag_Reserved2 = ((word_of_nat flagsByte :: byte) AND 0x80 \<noteq> 0)\<rparr>"

definition expectedV2Signature :: buffer where
  "expectedV2Signature = [0xAB, 0xBA, 0xCE, 0xDE]"

text \<open>
  The version check of \<^verbatim>\<open>processMessage\<close>: the HCI version, the protocol version
  and the offset at which the payload starts.
\<close>

definition detectVersion :: "buffer \<Rightarrow> nat \<Rightarrow> error + (HCIVersion \<times> nat option \<times> nat)" where
  "detectVersion message payloadStart =
     (if length message \<ge> payloadStart + 4 then
        (let versionBytes = subarray message (int payloadStart) (int (payloadStart + 4)) in
         if versionBytes = expectedV2Signature then
           (if length message \<ge> payloadStart + 4 + 1 then
              (case readUInt8 message (payloadStart + 4) of
                 Inl e \<Rightarrow> Inl e
               | Inr pv \<Rightarrow> Inr (HCIv2, Some pv, payloadStart + 4 + 1))
            else Inr (HCIv2, None, payloadStart + 4))
         else Inr (HCIv1, None, payloadStart))
      else Inr (HCIv1, None, payloadStart))"

definition processMessage :: "buffer \<Rightarrow> processed" where
  "processMessage message =
     (case readUInt16BE message (length startBytes) of
        Inl e \<Rightarrow> Thrown e
      | Inr lengthField \<Rightarrow>
          if lengthField \<noteq> length message then LengthMismatch
          else if length message < length startBytes + 2 + 2 + 1 then TooShort
          else
            case readUInt16BE message (length startBytes + 2) of
              Inl e \<Rightarrow> Thrown e
            | Inr msgID \<Rightarrow>
                case readUInt8 message (length startBytes + 2 + 2) of
                  Inl e \<Rightarrow> Thrown e
                | Inr flagsByte \<Rightarrow>
                    case detectVersion message (length startBytes + 2 + 2 + 1) of
                      Inl e \<Rightarrow> Thrown e
                    | Inr (version, protocol, payloadStart) \<Rightarrow>
                        let header = \<lparr>messageID = msgID, flags = decodeFlags flagsByte,
                                      hciVersion = version, protocolVersion = protocol\<rparr>;
                            payloadEnd = int (length message) - int (length endBytes)
                        in if payloadEnd \<le> int payloadStart then NoPayload header
                           else Dispatched header
                                  (subarray message (int payloadStart) payloadEnd))"

subsection \<open>\<^verbatim>\<open>handleData\<close> (second client)\<close>

definition readUInt32BE :: "buffer \<Rightarrow> nat \<Rightarrow> error + nat" where
  "readUInt32BE buf offset =
     (if offset + 4 \<le> length buf
      then Inr (unat (buf ! offset) * 16777216 + unat (buf ! (offset + 1)) * 65536
                + unat (buf ! (offset + 2)) * 256 + unat (buf ! (offset + 3)))
      else Inl RangeError)"

text \<open>
  \<^verbatim>\<open>handlePacket\<close>: the reads throw on a payload that is too short; a login
  acknowledgement (\<open>0x8001\<close>) stores the session token.  The events it emits are not
  part of the state.
\<close>

definition handlePacket :: "buffer \<Rightarrow> EclipseHCI_v2 \<Rightarrow> error + EclipseHCI_v2" where
  "handlePacket packet s =
     (let payload = subarray packet 4 (-2) in
      case readUInt16BE payload 0 of
        Inl e \<Rightarrow> Inl e
      | Inr reqId \<Rightarrow>
          if reqId = 0x8001 then
            (case readUInt32BE payload 2 of
               Inl e \<Rightarrow> Inl e
             | Inr token \<Rightarrow> Inr (s\<lparr>sessionToken := token, state := authenticated\<rparr>))
          else Inr s)"

text \<open>
  The \<^verbatim>\<open>while (this.buffer.length >= 6)\<close> loop of \<^verbatim>\<open>handleData\<close>.  The loop need not
  end (a length field of 0 leaves the buffer as it is), so the model takes fuel, one unit
  per test of the loop condition, and \<open>None\<close> means the fuel ran out.  The result lists
  the packets passed to \<^verbatim>\<open>handlePacket\<close>.
\<close>

fun handleData_loop ::
  "nat \<Rightarrow> EclipseHCI_v2 \<Rightarrow> (EclipseHCI_v2 \<times> buffer list \<times> error option) option" where
  "handleData_loop 0 s = None"
| "handleData_loop (Suc fuel) s =
     (if length (buffer_v2 s) \<ge> 6 then
        (if subarray (buffer_v2 s) 0 2 \<noteq> startBytes then
           (case indexOf (buffer_v2 s) startBytes of
              None \<Rightarrow> handleData_loop fuel (s\<lparr>buffer_v2 := []\<rparr>)
            | Some idx \<Rightarrow>
                handleData_loop fuel (s\<lparr>buffer_v2 := subarray_from (buffer_v2 s) (int idx)\<rparr>))
         else
           (case readUInt16BE (buffer_v2 s) 2 of
              Inl e \<Rightarrow> Some (s, [], Some e)
            | Inr len \<Rightarrow>
                if length (buffer_v2 s) < len then Some (s, [], None)
                else
                  let packet = subarray (buffer_v2 s) 0 (int len);
                      s1 = s\<lparr>buffer_v2 := subarray_from (buffer_v2 s) (int len)\<rparr>
                  in if subarray_from packet (-2) \<noteq> endBytes then handleData_loop fuel s1
                     else
                       (case handlePacket packet s1 of
                          Inl e \<Rightarrow> Some (s1, [packet], Some e)
                        | Inr s2 \<Rightarrow>
                            (case handleData_loop fuel s2 of
                               None \<Rightarrow> None
                             | Some (s3, ps, e) \<Rightarrow> Some (s3, packet # ps, e)))))
      else Some (s, [], None))"

declare handleData_loop.simps [simp del]

definition handleData ::
  "nat \<Rightarrow> buffer \<Rightarrow> EclipseHCI_v2 \<Rightarrow> (EclipseHCI_v2 \<times> buffer list \<times> error option) option" where
  "handleData fuel data s = handleData_loop fuel (s\<lparr>buffer_v2 := buffer_v2 s @ data\<rparr>)"

text \<open>Successive \<^verbatim>\<open>'data'\<close> events of the second client; an exception ends one event only.\<close>

fun feed_v2 :: "nat \<Rightarrow> buffer list \<Rightarrow> EclipseHCI_v2 \<Rightarrow> (EclipseHCI_v2 \<times> buffer list) option" where
  "feed_v2 fuel [] s = Some (s, [])"
| "feed_v2 fuel (c # cs) s =
     (case handleData fuel c s of
        None \<Rightarrow> None
      | Some (s1, ps, e) \<Rightarrow>
          (case feed_v2 fuel cs s1 of
             None \<Rightarrow> None
           | Some (s2, ps') \<Rightarrow> Some (s2, ps @ ps')))"

subsection \<open>Constructors and sample streams\<close>

definition new_EclipseHCI :: "nat \<Rightarrow> EclipseHCI" where
  "new_EclipseHCI rateLimit =
     \<lparr>connected = False, socket = None, buffer = [], messageQueue = [],
      queueProcessor = None, rateLimitMs = rateLimit, isProcessingQueue = False\<rparr>"

text \<open>
  The second client with its default options, as its constructor leaves it (the call of
  \<^verbatim>\<open>connect\<close> has set the state to \<^verbatim>\<open>'connecting'\<close>).
\<close>

definition new_EclipseHCI_v2 :: EclipseHCI_v2 where
  "new_EclipseHCI_v2 =
     \<lparr>opts_rateLimitMs = 80, opts_reconnect = True, opts_reconnectDelayMs = 5000,
      socket_v2 = None, buffer_v2 = [], queue = [], timer = None, processing = False,
      reconnectTimer = None, state = connecting, sessionToken = 0\<rparr>"

text \<open>An 8-byte frame with message id \<open>0x000D\<close>.\<close>

definition frame_000D :: buffer where
  "frame_000D = [0x5A, 0x0F, 0x00, 0x08, 0x00, 0x0D, 0x2E, 0x8D]"

text \<open>
  A 14-byte candidate whose length field is right for the bytes buffered and whose last
  two bytes are not the end marker; \<open>frame_000D\<close> sits behind its length field.
\<close>

definition corrupt_candidate :: buffer where
  "corrupt_candidate =
     [0x5A, 0x0F, 0x00, 0x0E, 0x5A, 0x0F, 0x00, 0x08, 0x00, 0x0D, 0x2E, 0x8D, 0x00, 0x00]"

text \<open>The byte sequence of the specification's scenario, and the same with length 14.\<close>

definition scenario_bytes :: buffer where
  "scenario_bytes =
     [0x5A, 0x0F, 0x00, 0x0B, 0x00, 0x0D, 0x08, 0xAB, 0xBA, 0xCE, 0xDE, 0x01, 0x2E, 0x8D]"

definition scenario_frame :: buffer where
  "scenario_frame =
     [0x5A, 0x0F, 0x00, 0x0E, 0x00, 0x0D, 0x08, 0xAB, 0xBA, 0xCE, 0xDE, 0x01, 0x2E, 0x8D]"

section \<open>Outbound frames\<close>

text \<open>
  JavaScript's \<^verbatim>\<open>a | b\<close> on integers: both operands as 32-bit two's complement, the
  result read as signed.
\<close>

definition js_or :: "int \<Rightarrow> int \<Rightarrow> int" where
  "js_or a b = sint ((word_of_int a :: 32 word) OR word_of_int b)"

text \<open>
  \<^verbatim>\<open>HCIRequest.getRequest(flags)\<close>: the complete frame, or the \<^verbatim>\<open>RangeError\<close> of the first
  write that rejects its value.  \<^verbatim>\<open>Buffer.from([ProtocolVersion])\<close> keeps the low octet.
\<close>

definition preamble :: buffer where
  "preamble = [0xAB, 0xBA, 0xCE, 0xDE]"

definition getRequest :: "HCIRequest \<Rightarrow> int \<Rightarrow> error + buffer" where
  "getRequest r flagsParam =
     (let finalFlags = js_or flagsParam 0x08 in
      if Version r = 2 then
        (let protocol = [word_of_int (ProtocolVersion r)];
             headerSize = length startBytes + 2 + 2 + 1 + length preamble + length protocol;
             totalLength = headerSize + length (Data r) + length endBytes
         in case writeUInt16BE (int totalLength) of
              Inl e \<Rightarrow> Inl e
            | Inr lengthField \<Rightarrow>
                (case writeUInt16BE (RequestID r) of
                   Inl e \<Rightarrow> Inl e
                 | Inr msgID \<Rightarrow>
                     (case writeUInt8 finalFlags of
                        Inl e \<Rightarrow> Inl e
                      | Inr flagsByte \<Rightarrow>
                          Inr (startBytes @ lengthField @ msgID @ flagsByte @ preamble
                               @ protocol @ Data r @ endBytes))))
      else
        (let headerSize = length startBytes + 2 + 2 + 1;
             totalLength = headerSize + length (Data r) + length endBytes
         in case writeUInt16BE (int totalLength) of
              Inl e \<Rightarrow> Inl e
            | Inr lengthField \<Rightarrow>
                (case writeUInt16BE (RequestID r) of
                   Inl e \<Rightarrow> Inl e
                 | Inr msgID \<Rightarrow>
                     (case writeUInt8 finalFlags of
                        Inl e \<Rightarrow> Inl e
                      | Inr flagsByte \<Rightarrow>
                          Inr (startBytes @ lengthField @ msgID @ flagsByte @ Data r
                               @ endBytes)))))"

text \<open>The byte count the two branches compute as \<^verbatim>\<open>totalLength\<close>.\<close>

definition totalLength :: "HCIRequest \<Rightarrow> nat" where
  "totalLength r = (if Version r = 2 then 14 else 9) + length (Data r)"

section \<open>Level conversion\<close>

text \<open>
  \<^verbatim>\<open>LevelConversion\<close> (Utilities/LevelConversion.ts).  A dB value is a JavaScript number:
  negative infinity or a finite value.  Finite doubles are modelled as rationals, which
  is exact for the integers of the table and for the two special cases.  The two formula
  branches (\<^verbatim>\<open>(level - 204) * 0.355\<close> and its inverse) are given in exact arithmetic and
  can differ from the doubles the code computes; no theorem below evaluates them, and
  \<^verbatim>\<open>NaN\<close> and positive infinity are not inputs of the model.
\<close>

datatype dBValue = NegativeInfinity | Finite rat

record LevelEntry =
  dB :: int
  level :: int
  hex :: int

definition LEVEL_REFERENCE_TABLE :: "LevelEntry list" where
  "LEVEL_REFERENCE_TABLE =
     [\<lparr>dB = -90, level = 0, hex = 0x0000\<rparr>,
      \<lparr>dB = -72, level = 18, hex = 0x0012\<rparr>,
      \<lparr>dB = -66, level = 35, hex = 0x0023\<rparr>,
      \<lparr>dB = -60, level = 52, hex = 0x0034\<rparr>,
      \<lparr>dB = -54, level = 69, hex = 0x0045\<rparr>,
      \<lparr>dB = -48, level = 86, hex = 0x0056\<rparr>,
      \<lparr>dB = -42, level = 103, hex = 0x0067\<rparr>,
      \<lparr>dB = -36, level = 119, hex = 0x0077\<rparr>,
      \<lparr>dB = -30, level = 136, hex = 0x0088\<rparr>,
      \<lparr>dB = -24, level = 153, hex = 0x0099\<rparr>,
      \<lparr>dB = -18, level = 170, hex = 0x00AA\<rparr>,
      \<lparr>dB = -12, level = 179, hex = 0x00B3\<rparr>,
      \<lparr>dB = -9, level = 187, hex = 0x00BB\<rparr>,
      \<lparr>dB = -6, level = 196, hex = 0x00C4\<rparr>,
      \<lparr>dB = -3, level = 204, hex = 0x00CC\<rparr>,
      \<lparr>dB = 0, level = 212, hex = 0x00D4\<rparr>,
      \<lparr>dB = 3, level = 221, hex = 0x00DD\<rparr>,
      \<lparr>dB = 6, level = 229, hex = 0x00E5\<rparr>,
      \<lparr>dB = 9, level = 238, hex = 0x00EE\<rparr>,
      \<lparr>dB = 12, level = 246, hex = 0x00F6\<rparr>,
      \<lparr>dB = 15, level = 255, hex = 0x00FF\<rparr>,
      \<lparr>dB = 18, level = 263, hex = 0x0107\<rparr>,
      \<lparr>dB = 21, level = 272, hex = 0x0110\<rparr>,
      \<lparr>dB = 24, level = 280, hex = 0x0118\<rparr>,
      \<lparr>dB = 27, level = 287, hex = 0x011F\<rparr>]"

text \<open>\<^verbatim>\<open>Math.round\<close>: the nearest integer, halves towards plus infinity.\<close>

definition Math_round :: "rat \<Rightarrow> int" where
  "Math_round x = \<lfloor>x + 1 / 2\<rfloor>"

definition dBToLevel :: "dBValue \<Rightarrow> int" where
  "dBToLevel d =
     (case d of
        NegativeInfinity \<Rightarrow> 0
      | Finite q \<Rightarrow>
          if q < - 72 then 0
          else
            (case find (\<lambda>entry. of_int (dB entry) = q) LEVEL_REFERENCE_TABLE of
               Some exactMatch \<Rightarrow> level exactMatch
             | None \<Rightarrow>
                 let calculatedLevel = Math_round (q / (355 / 1000) + 204)
                 in max 0 (min 287 calculatedLevel)))"

definition levelToDB :: "int \<Rightarrow> dBValue" where
  "levelToDB lv =
     (if lv = 0 then NegativeInfinity
      else
        (case find (\<lambda>entry. level entry = lv) LEVEL_REFERENCE_TABLE of
           Some exactMatch \<Rightarrow> Finite (of_int (dB exactMatch))
         | None \<Rightarrow> Finite (of_int (lv - 204) * (355 / 1000))))"

text \<open>\<^verbatim>\<open>isValidLevel\<close>; the argument is an integer already.\<close>

definition isValidLevel :: "int \<Rightarrow> bool" where
  "isValidLevel lv = (lv \<ge> 0 \<and> lv \<le> 287)"

section \<open>Crosspoint codecs\<close>

record PortPair =
  destinationPort :: int
  sourcePort :: int

text \<open>\<^verbatim>\<open>CrosspointLevelAction\<close> of the request and \<^verbatim>\<open>CrosspointLevelData\<close> of the reply.\<close>

record CrosspointLevelAction = PortPair +
  levelValue :: int

record CrosspointLevelData = CrosspointLevelAction +
  levelDB :: dBValue

subsection \<open>\<^verbatim>\<open>RequestCrosspointLevelActions\<close>\<close>

text \<open>The \<^verbatim>\<open>for\<close> loop of \<^verbatim>\<open>createPayload\<close>: validation and the three writes per action.\<close>

fun createPayload_actions :: "CrosspointLevelAction list \<Rightarrow> error + buffer" where
  "createPayload_actions [] = Inr []"
| "createPayload_actions (action # actions) =
     (if destinationPort action < 1 \<or> destinationPort action > 1024
      then Inl (Error ''Destination port must be between 1 and 1024'')
      else if sourcePort action < 1 \<or> sourcePort action > 1024
      then Inl (Error ''Source port must be between 1 and 1024'')
      else if \<not> isValidLevel (levelValue action)
      then Inl (Error ''Level value must be between 0 and 287'')
      else
        (case writeUInt16BE (destinationPort action - 1) of
           Inl e \<Rightarrow> Inl e
         | Inr dst \<Rightarrow>
             (case writeUInt16BE (sourcePort action - 1) of
                Inl e \<Rightarrow> Inl e
              | Inr src \<Rightarrow>
                  (case writeUInt16BE (levelValue action) of
                     Inl e \<Rightarrow> Inl e
                   | Inr lvl \<Rightarrow>
                       (case createPayload_actions actions of
                          Inl e \<Rightarrow> Inl e
                        | Inr actionData \<Rightarrow> Inr (dst @ src @ lvl @ actionData))))))"

definition createPayload :: "CrosspointLevelAction list \<Rightarrow> error + buffer" where
  "createPayload actions =
     (case writeUInt16BE (int (length actions)) of
        Inl e \<Rightarrow> Inl e
      | Inr countBuffer \<Rightarrow>
          (case createPayload_actions actions of
             Inl e \<Rightarrow> Inl e
           | Inr actionData \<Rightarrow> Inr (countBuffer @ actionData)))"

text \<open>
  The constructor: message id \<open>0x0026\<close>, protocol version 1.  (\<^verbatim>\<open>this.HCIVersion = 2\<close>
  sets a property that \<^verbatim>\<open>getRequest\<close> does not read.)
\<close>

definition new_RequestCrosspointLevelActions ::
  "CrosspointLevelAction list \<Rightarrow> bool \<Rightarrow> int option \<Rightarrow> int \<Rightarrow> error + HCIRequest" where
  "new_RequestCrosspointLevelActions actions urgent responseID now =
     (case createPayload actions of
        Inl e \<Rightarrow> Inl e
      | Inr payload \<Rightarrow>
          Inr ((new_HCIRequest 0x0026 payload urgent responseID now)\<lparr>ProtocolVersion := 1\<rparr>))"

subsection \<open>\<^verbatim>\<open>ReplyCrosspointLevelStatus.parse\<close>\<close>

record CrosspointLevelStatusData =
  messageType :: string
  reply_messageID :: nat
  count :: nat
  levelData :: "CrosspointLevelData list"
  rawPayload :: buffer



subsection \<open>\<^verbatim>\<open>RequestCrosspointActions\<close> and \<^verbatim>\<open>RequestCrosspointStatus\<close>\<close>

definition validatePorts :: "int \<Rightarrow> int \<Rightarrow> bool" where
  "validatePorts srcPort dstPort =
     (srcPort > 0 \<and> srcPort \<le> 1024 \<and> dstPort > 0 \<and> dstPort \<le> 1024)"

text \<open>
  The \<^verbatim>\<open>for\<close> loop of \<^verbatim>\<open>RequestCrosspointStatus.createPayload\<close> and the method itself.
\<close>

fun status_portData :: "int list \<Rightarrow> error + buffer" where
  "status_portData [] = Inr []"
| "status_portData (port # ports) =
     (case writeUInt16BE port of
        Inl e \<Rightarrow> Inl e
      | Inr portBuffer \<Rightarrow>
          (case status_portData ports of
             Inl e \<Rightarrow> Inl e
           | Inr portData \<Rightarrow> Inr (portBuffer @ portData)))"

definition status_createPayload :: "int list \<Rightarrow> error + buffer" where
  "status_createPayload ports =
     (case writeUInt16BE (int (length ports)) of
        Inl e \<Rightarrow> Inl e
      | Inr countBuffer \<Rightarrow>
          (case status_portData ports of
             Inl e \<Rightarrow> Inl e
           | Inr portData \<Rightarrow> Inr (countBuffer @ portData)))"

text \<open>
  The constructor of \<^verbatim>\<open>RequestCrosspointStatus\<close>: the count check, the port check of
  the first port out of \<open>0..1023\<close>, then the payload; message id \<open>0x000D\<close>.
\<close>

definition new_RequestCrosspointStatus ::
  "int list \<Rightarrow> bool \<Rightarrow> int option \<Rightarrow> int \<Rightarrow> error + HCIRequest" where
  "new_RequestCrosspointStatus ports urgent responseID now =
     (if length ports < 1 \<or> length ports > 495
      then Inl (Error ''Port count must be between 1 and 495'')
      else if \<exists>port \<in> set ports. port < 0 \<or> port > 1023
      then Inl (Error ''Port number must be between 0 and 1023'')
      else
        (case status_createPayload ports of
           Inl e \<Rightarrow> Inl e
         | Inr payload \<Rightarrow> Inr (new_HCIRequest 0x000D payload urgent responseID now)))"

text \<open>
  Submitting a request, as the test programs do it:
  \<^verbatim>\<open>client.addToQueue(new Request...(...))\<close>.  The constructor runs first; when it throws,
  \<^verbatim>\<open>addToQueue\<close> is not called and the exception reaches the caller.
\<close>

definition submit :: "error + HCIRequest \<Rightarrow> EclipseHCI \<Rightarrow> error option \<times> EclipseHCI" where
  "submit constructed s =
     (case constructed of
        Inl e \<Rightarrow> (Some e, s)
      | Inr request \<Rightarrow> (None, s\<lparr>messageQueue := addToQueue request (messageQueue s)\<rparr>))"

subsection \<open>\<^verbatim>\<open>RequestUnicodeAliasAdd\<close> and \<^verbatim>\<open>ReplyUnicodeAliasStatus\<close>\<close>

















subsection \<open>Proof devices for the round trip\<close>

text \<open>
  The octets \<^verbatim>\<open>writeUInt16BE\<close> stores, the six octets of one action, the range
  invariants of an action, and the entry \<^verbatim>\<open>parse\<close> is expected to return for it.
\<close>

definition encode_u16 :: "int \<Rightarrow> buffer" where
  "encode_u16 v = [word_of_int (v div 256), word_of_int (v mod 256)]"

definition encode_action :: "CrosspointLevelAction \<Rightarrow> buffer" where
  "encode_action a =
     encode_u16 (destinationPort a - 1) @ encode_u16 (sourcePort a - 1) @ encode_u16 (levelValue a)"



section \<open>Queue ordering\<close>

lemma addToQueue_scan_eq:
  "i \<le> length q \<Longrightarrow>
   addToQueue_scan q i ins =
     (if takeWhile Urgent (drop i q) = [] then ins
      else i + length (takeWhile Urgent (drop i q)))"
proof (induction q i ins rule: addToQueue_scan.induct)
  case (1 q i ins)
  show ?case
  proof (cases "i < length q")
    case False
    then show ?thesis by (simp add: addToQueue_scan.simps)
  next
    case True
    then have d: "drop i q = q ! i # drop (Suc i) q"
      by (simp add: Cons_nth_drop_Suc)
    show ?thesis
    proof (cases "Urgent (q ! i)")
      case False
      with True d show ?thesis by (simp add: addToQueue_scan.simps)
    next
      case U: True
      have "addToQueue_scan q i ins = addToQueue_scan q (i + 1) (i + 1)"
        using True U by (subst addToQueue_scan.simps) simp
      also have "\<dots> = (if takeWhile Urgent (drop (i + 1) q) = [] then i + 1
                       else (i + 1) + length (takeWhile Urgent (drop (i + 1) q)))"
        using "1.IH" [OF True U] True by simp
      finally show ?thesis using d U by simp
    qed
  qed
qed

lemma addToQueue_scan_takeWhile: "addToQueue_scan q 0 0 = length (takeWhile Urgent q)"
  using addToQueue_scan_eq [of 0 q 0] by simp

lemma splice0_takeWhile:
  "splice0 (length (takeWhile P xs)) x xs = takeWhile P xs @ x # dropWhile P xs"
  by (simp add: splice0_def takeWhile_eq_take [symmetric] dropWhile_eq_drop [symmetric])

lemma addToQueue_urgent:
  "Urgent r \<Longrightarrow> addToQueue r q = takeWhile Urgent q @ r # dropWhile Urgent q"
  by (simp add: addToQueue_def addToQueue_scan_takeWhile splice0_takeWhile)

lemma findIndex_not:
  "findIndex (\<lambda>x. \<not> P x) xs =
     (if \<forall>x\<in>set xs. P x then None else Some (length (takeWhile P xs)))"
  by (induction xs) auto

lemma enqueue_urgent:
  assumes "Urgent r"
  shows "enqueue r q = takeWhile Urgent q @ r # dropWhile Urgent q"
proof (cases "\<forall>x\<in>set q. Urgent x")
  case True
  then have tw: "takeWhile Urgent q = q" and dw: "dropWhile Urgent q = []"
    by simp_all
  have "enqueue r q = q @ [r]"
    using True assms by (simp add: enqueue_def findIndex_not)
  then show ?thesis
    by (simp add: tw dw)
next
  case False
  then have "findIndex (\<lambda>x. \<not> Urgent x) q = Some (length (takeWhile Urgent q))"
    by (simp only: findIndex_not if_False)
  with assms show ?thesis
    by (simp add: enqueue_def splice0_takeWhile)
qed

lemma enqueue_eq_addToQueue: "enqueue r q = addToQueue r q"
  by (cases "Urgent r") (simp_all add: enqueue_urgent addToQueue_urgent, simp add: enqueue_def addToQueue_def)

lemma takeWhile_filter_not: "takeWhile P (filter (\<lambda>x. \<not> P x) xs) = []"
  by (induction xs) auto

lemma dropWhile_filter_not: "dropWhile P (filter (\<lambda>x. \<not> P x) xs) = filter (\<lambda>x. \<not> P x) xs"
  by (induction xs) auto

lemma addToQueue_partitioned:
  "addToQueue r (filter Urgent rs @ filter (\<lambda>x. \<not> Urgent x) rs) =
   filter Urgent (rs @ [r]) @ filter (\<lambda>x. \<not> Urgent x) (rs @ [r])"
proof (cases "Urgent r")
  case True
  have tw: "takeWhile Urgent (filter Urgent rs @ filter (\<lambda>x. \<not> Urgent x) rs) = filter Urgent rs"
    by (subst takeWhile_append2) (simp_all add: takeWhile_filter_not)
  have dw: "dropWhile Urgent (filter Urgent rs @ filter (\<lambda>x. \<not> Urgent x) rs)
            = filter (\<lambda>x. \<not> Urgent x) rs"
    by (subst dropWhile_append2) (simp_all add: dropWhile_filter_not)
  show ?thesis using True by (simp add: addToQueue_urgent tw dw)
next
  case False
  then show ?thesis by (simp add: addToQueue_def)
qed

lemma addAllToQueue_empty:
  "addAllToQueue rs [] = filter Urgent rs @ filter (\<lambda>x. \<not> Urgent x) rs"
proof (induction rs rule: rev_induct)
  case Nil
  show ?case by (simp add: addAllToQueue_def)
next
  case (snoc r rs)
  have "addAllToQueue (rs @ [r]) [] = addToQueue r (addAllToQueue rs [])"
    by (simp add: addAllToQueue_def)
  then show ?case using snoc.IH addToQueue_partitioned [of r rs] by simp
qed

lemma enqueueAll_eq: "enqueueAll rs q = addAllToQueue rs q"
  by (simp add: enqueueAll_def addAllToQueue_def enqueue_eq_addToQueue)

lemma run_three_ticks:
  assumes "Urgent r1" and "\<not> Urgent r2" and "\<not> Urgent r3"
  shows "snd (run [Enqueue r2, Enqueue r1, Enqueue r3, Tick, Tick, Tick]
           (s\<lparr>connected := True, socket := Some h, messageQueue := [],
              isProcessingQueue := False\<rparr>))
         = [Data r1, Data r2, Data r3]"
  using assms
  by (simp add: addToQueue_urgent) (simp add: addToQueue_def processQueue_def sendHCIRequest_def)

text \<open>
  Claim C5.  From an empty queue, a normal request \<open>A\<close>, then an urgent \<open>B\<close>, then a
  normal \<open>C\<close> leave the queue as \<open>B, A, C\<close>, and three ticks of a connected client
  write them in that order; after any sequence of enqueues the queue is the urgent
  requests in their insertion order followed by the normal requests in their insertion
  order.  This holds for \<^verbatim>\<open>addToQueue\<close> and for \<^verbatim>\<open>enqueue\<close>.
\<close>

theorem C5_queue_order:
  "addToQueue (C\<lparr>Urgent := False\<rparr>)
     (addToQueue (B\<lparr>Urgent := True\<rparr>) (addToQueue (A\<lparr>Urgent := False\<rparr>) []))
     = [B\<lparr>Urgent := True\<rparr>, A\<lparr>Urgent := False\<rparr>, C\<lparr>Urgent := False\<rparr>]
   \<and> enqueue (C\<lparr>Urgent := False\<rparr>)
     (enqueue (B\<lparr>Urgent := True\<rparr>) (enqueue (A\<lparr>Urgent := False\<rparr>) []))
     = [B\<lparr>Urgent := True\<rparr>, A\<lparr>Urgent := False\<rparr>, C\<lparr>Urgent := False\<rparr>]
   \<and> snd (run [Enqueue (A\<lparr>Urgent := False\<rparr>), Enqueue (B\<lparr>Urgent := True\<rparr>),
               Enqueue (C\<lparr>Urgent := False\<rparr>), Tick, Tick, Tick]
           (s\<lparr>connected := True, socket := Some h, messageQueue := [],
              isProcessingQueue := False\<rparr>))
     = [Data B, Data A, Data C]
   \<and> addAllToQueue rs [] = filter Urgent rs @ filter (\<lambda>r. \<not> Urgent r) rs
   \<and> enqueueAll rs [] = filter Urgent rs @ filter (\<lambda>r. \<not> Urgent r) rs"
proof -
  have abc: "addToQueue (C\<lparr>Urgent := False\<rparr>)
     (addToQueue (B\<lparr>Urgent := True\<rparr>) (addToQueue (A\<lparr>Urgent := False\<rparr>) []))
     = [B\<lparr>Urgent := True\<rparr>, A\<lparr>Urgent := False\<rparr>, C\<lparr>Urgent := False\<rparr>]"
    by (simp add: addToQueue_urgent) (simp add: addToQueue_def)
  have ticks: "snd (run [Enqueue (A\<lparr>Urgent := False\<rparr>), Enqueue (B\<lparr>Urgent := True\<rparr>),
               Enqueue (C\<lparr>Urgent := False\<rparr>), Tick, Tick, Tick]
           (s\<lparr>connected := True, socket := Some h, messageQueue := [],
              isProcessingQueue := False\<rparr>))
     = [Data B, Data A, Data C]"
    using run_three_ticks [where ?r1.0 = "B\<lparr>Urgent := True\<rparr>"
        and ?r2.0 = "A\<lparr>Urgent := False\<rparr>" and ?r3.0 = "C\<lparr>Urgent := False\<rparr>"
        and s = s and h = h]
    by simp
  show ?thesis
    using abc ticks by (simp add: enqueue_eq_addToQueue enqueueAll_eq addAllToQueue_empty)
qed

theorem C5_queue_order_witness:
  "addAllToQueue
     [new_HCIRequest 1 [] False None 0, new_HCIRequest 2 [] True None 1,
      new_HCIRequest 3 [] False None 2, new_HCIRequest 4 [] True None 3] []
   = [new_HCIRequest 2 [] True None 1, new_HCIRequest 4 [] True None 3,
      new_HCIRequest 1 [] False None 0, new_HCIRequest 3 [] False None 2]"
  using C5_queue_order [where rs =
     "[new_HCIRequest 1 [] False None 0, new_HCIRequest 2 [] True None 1,
       new_HCIRequest 3 [] False None 2, new_HCIRequest 4 [] True None 3]"]
  by (simp add: new_HCIRequest_def)


section \<open>Dispatcher\<close>

lemma processQueue_writes: "length (snd (processQueue s)) \<le> 1"
  by (simp add: processQueue_def sendHCIRequest_def Let_def)

lemma drain_writes: "length (fst (snd (drain s))) \<le> 1"
  by (simp add: drain_def Let_def split: sum.splits)

lemma run_writes: "length (snd (run evs s)) \<le> length (filter is_Tick evs)"
proof (induction evs s rule: run.induct)
  case (1 s)
  show ?case by simp
next
  case (2 evs s)
  obtain s1 w where pq: "processQueue s = (s1, w)" by (cases "processQueue s")
  obtain s2 ws where r: "run evs s1 = (s2, ws)" by (cases "run evs s1")
  have "length w \<le> 1" using processQueue_writes [of s] pq by simp
  moreover have "length ws \<le> length (filter is_Tick evs)"
    using "2.IH" [OF pq [symmetric] refl] r by simp
  ultimately show ?case using pq r by simp
next
  case (3 r evs s)
  then show ?case by simp
qed

lemma run_v2_writes: "length (snd (run_v2 evs s)) \<le> length (filter is_Tick evs)"
proof (induction evs s rule: run_v2.induct)
  case (1 s)
  show ?case by simp
next
  case (2 evs s)
  obtain s1 w e where d: "drain s = (s1, w, e)" by (cases "drain s")
  obtain s2 ws where r: "run_v2 evs s1 = (s2, ws)" by (cases "run_v2 evs s1")
  have "length w \<le> 1" using drain_writes [of s] d by simp
  moreover have "length ws \<le> length (filter is_Tick evs)"
    using "2.IH" [OF d [symmetric] refl refl] r by simp
  ultimately show ?case using d r by simp
next
  case (3 r evs s)
  then show ?case by simp
qed

text \<open>
  Claim C8.  One tick of the dispatcher (\<^verbatim>\<open>processQueue\<close>, \<^verbatim>\<open>drain\<close>) writes at most one
  buffer to the socket and takes at most the head off the queue, however long the queue
  is; it writes nothing when the in-flight guard is set, when there is no socket (or the
  first client is not connected), or when the queue is empty; and over any interleaving
  of ticks and enqueues the number of writes is at most the number of ticks.
\<close>

theorem C8_one_write_per_tick:
  "length (snd (processQueue s)) \<le> 1
   \<and> (messageQueue (fst (processQueue s)) = messageQueue s
        \<or> messageQueue (fst (processQueue s)) = tl (messageQueue s))
   \<and> (if isProcessingQueue s \<or> socket s = None \<or> \<not> connected s \<or> messageQueue s = []
       then snd (processQueue s) = [] else snd (processQueue s) = [Data (hd (messageQueue s))])
   \<and> length (fst (snd (drain t))) \<le> 1
   \<and> (queue (fst (drain t)) = queue t \<or> queue (fst (drain t)) = tl (queue t))
   \<and> (if processing t \<or> socket_v2 t = None \<or> queue t = []
       then fst (snd (drain t)) = []
       else fst (snd (drain t)) =
         (case buildPacket (RequestID (hd (queue t))) (Data (hd (queue t))) of
            Inl e \<Rightarrow> [] | Inr packet \<Rightarrow> [packet]))
   \<and> length (snd (run evs s)) \<le> length (filter is_Tick evs)
   \<and> length (snd (run_v2 evs t)) \<le> length (filter is_Tick evs)"
proof -
  have a: "messageQueue (fst (processQueue s)) = messageQueue s
        \<or> messageQueue (fst (processQueue s)) = tl (messageQueue s)"
    by (simp add: processQueue_def Let_def)
  have b: "if isProcessingQueue s \<or> socket s = None \<or> \<not> connected s \<or> messageQueue s = []
       then snd (processQueue s) = [] else snd (processQueue s) = [Data (hd (messageQueue s))]"
    by (simp add: processQueue_def sendHCIRequest_def Let_def)
  have c: "queue (fst (drain t)) = queue t \<or> queue (fst (drain t)) = tl (queue t)"
    by (simp add: drain_def Let_def split: sum.splits)
  have d: "if processing t \<or> socket_v2 t = None \<or> queue t = []
       then fst (snd (drain t)) = []
       else fst (snd (drain t)) =
         (case buildPacket (RequestID (hd (queue t))) (Data (hd (queue t))) of
            Inl e \<Rightarrow> [] | Inr packet \<Rightarrow> [packet])"
    by (simp add: drain_def Let_def split: sum.splits)
  show ?thesis
    using a b c d processQueue_writes [of s] drain_writes [of t]
      run_writes [of evs s] run_v2_writes [of evs t]
    by blast
qed



theorem C8_one_write_per_tick_witness:
  "snd (processQueue
      \<lparr>connected = True, socket = Some 1, buffer = [],
       messageQueue = [new_HCIRequest 1 [1, 2] False None 0, new_HCIRequest 2 [3] False None 1],
       queueProcessor = Some (Interval 100), rateLimitMs = 100, isProcessingQueue = False\<rparr>)
     = [[1, 2]]
   \<and> fst (snd (drain
      \<lparr>opts_rateLimitMs = 80, opts_reconnect = True, opts_reconnectDelayMs = 5000,
       socket_v2 = None, buffer_v2 = [],
       queue = [new_HCIRequest 0 [7] False None 0],
       timer = Some (Interval 80), processing = False, reconnectTimer = None,
       state = disconnected, sessionToken = 0\<rparr>)) = []
   \<and> length (snd (run
      [Enqueue (new_HCIRequest 1 [1] False None 0), Enqueue (new_HCIRequest 2 [2] True None 1),
       Tick, Enqueue (new_HCIRequest 3 [3] True None 2)]
      \<lparr>connected = True, socket = Some 1, buffer = [],
       messageQueue = [new_HCIRequest 1 [1, 2] False None 0, new_HCIRequest 2 [3] False None 1],
       queueProcessor = Some (Interval 100), rateLimitMs = 100, isProcessingQueue = False\<rparr>))
     \<le> 1"
  using C8_one_write_per_tick
    [of "\<lparr>connected = True, socket = Some 1, buffer = [],
       messageQueue = [new_HCIRequest 1 [1, 2] False None 0, new_HCIRequest 2 [3] False None 1],
       queueProcessor = Some (Interval 100), rateLimitMs = 100, isProcessingQueue = False\<rparr>"
      "\<lparr>opts_rateLimitMs = 80, opts_reconnect = True, opts_reconnectDelayMs = 5000,
       socket_v2 = None, buffer_v2 = [],
       queue = [new_HCIRequest 0 [7] False None 0],
       timer = Some (Interval 80), processing = False, reconnectTimer = None,
       state = disconnected, sessionToken = 0\<rparr>"
      "[Enqueue (new_HCIRequest 1 [1] False None 0), Enqueue (new_HCIRequest 2 [2] True None 1),
       Tick, Enqueue (new_HCIRequest 3 [3] True None 2)]"]
  by (simp add: new_HCIRequest_def)

section \<open>Close and error handling\<close>

text \<open>
  Claim C10.  The close and error handling of both clients stops the dispatch timer and
  leaves the client disconnected with no socket, and the pending queue is exactly what
  it was; \<^verbatim>\<open>clearQueue\<close>, called by the user of the first client, is what empties it.
\<close>

theorem C10_close_keeps_queue:
  "messageQueue (on_close s) = messageQueue s
   \<and> queueProcessor (on_close s) = None \<and> \<not> connected (on_close s) \<and> socket (on_close s) = None
   \<and> messageQueue (on_error s) = messageQueue s
   \<and> queueProcessor (on_error s) = None \<and> \<not> connected (on_error s) \<and> socket (on_error s) = None
   \<and> queue (handleClose hadError t) = queue t
   \<and> timer (handleClose hadError t) = None \<and> state (handleClose hadError t) = disconnected
   \<and> socket_v2 (handleClose hadError t) = None
   \<and> queue (socket_error_v2 t) = queue t
   \<and> timer (socket_error_v2 t) = None \<and> state (socket_error_v2 t) = disconnected
   \<and> messageQueue (clearQueue s) = []"
  by (simp add: on_close_def on_error_def stopQueueProcessor_def handleClose_def stopQueue_def
      socket_error_v2_def on_error_v2_def clearQueue_def Let_def)

theorem C10_close_keeps_queue_witness:
  "messageQueue (on_close
      \<lparr>connected = True, socket = Some 1, buffer = [],
       messageQueue = [new_HCIRequest 1 [1, 2] True None 0, new_HCIRequest 2 [3] False None 1],
       queueProcessor = Some (Interval 100), rateLimitMs = 100, isProcessingQueue = False\<rparr>)
     = [new_HCIRequest 1 [1, 2] True None 0, new_HCIRequest 2 [3] False None 1]
   \<and> queue (handleClose False
      \<lparr>opts_rateLimitMs = 80, opts_reconnect = True, opts_reconnectDelayMs = 5000,
       socket_v2 = Some 1, buffer_v2 = [],
       queue = [new_HCIRequest 0 [7] False None 0],
       timer = Some (Interval 80), processing = False, reconnectTimer = None,
       state = authenticated, sessionToken = 5\<rparr>) = [new_HCIRequest 0 [7] False None 0]"
  using C10_close_keeps_queue
    [of "\<lparr>connected = True, socket = Some 1, buffer = [],
       messageQueue = [new_HCIRequest 1 [1, 2] True None 0, new_HCIRequest 2 [3] False None 1],
       queueProcessor = Some (Interval 100), rateLimitMs = 100, isProcessingQueue = False\<rparr>"
      False
      "\<lparr>opts_rateLimitMs = 80, opts_reconnect = True, opts_reconnectDelayMs = 5000,
       socket_v2 = Some 1, buffer_v2 = [],
       queue = [new_HCIRequest 0 [7] False None 0],
       timer = Some (Interval 80), processing = False, reconnectTimer = None,
       state = authenticated, sessionToken = 5\<rparr>"]
  by simp



section \<open>Reassembly\<close>

lemma actualEndBytes_eq:
  "lengthField \<le> length b1 \<Longrightarrow>
   (subarray_from (take lengthField b1) (int lengthField - 2) = endBytes)
   = (2 \<le> lengthField \<and> drop (lengthField - 2) (take lengthField b1) = endBytes)"
proof (cases "2 \<le> lengthField")
  case True
  then have "int lengthField - 2 = int (lengthField - 2)" by simp
  then show ?thesis using True by (simp del: of_nat_diff)
next
  case False
  assume "lengthField \<le> length b1"
  then show ?thesis using False actualEndBytes_length [of lengthField b1] by blast
qed

lemma check_end_eq:
  "(if length b1 < lengthField then Break b1
    else
      let completeMessage = subarray b1 0 (int lengthField);
          expectedEndStart = int lengthField - int (length endBytes);
          actualEndBytes = subarray_from completeMessage expectedEndStart
      in if actualEndBytes \<noteq> endBytes
         then Skip (subarray_from b1 (int (length startBytes)))
         else Deliver completeMessage (subarray_from b1 (int lengthField)))
   = check_end b1 lengthField"
proof (cases "length b1 < lengthField")
  case True
  then show ?thesis by (simp add: check_end_def)
next
  case False
  then have le: "lengthField \<le> length b1" by simp
  show ?thesis
    using False actualEndBytes_eq [OF le]
    by (simp add: check_end_def Let_def)
qed

lemma handleMessage_iter_front:
  "handleMessage_iter buf =
     (case indexOf buf startBytes of None \<Rightarrow> Break buf | Some i \<Rightarrow> at_front (drop i buf))"
proof (cases "indexOf buf startBytes")
  case None
  then show ?thesis by (simp add: handleMessage_iter_def)
next
  case (Some i)
  define b1 where "b1 = drop i buf"
  have b1: "(if i > 0 then subarray_from buf (int i) else buf) = b1"
    by (simp add: b1_def)
  show ?thesis
  proof (cases "length b1 < 4")
    case True
    then show ?thesis
      unfolding handleMessage_iter_def Some option.case b1 Let_def
      by (simp add: at_front_def b1_def)
  next
    case False
    define L where "L = unat (b1 ! 2) * 256 + unat (b1 ! 3)"
    have rd: "readUInt16BE b1 2 = Inr L"
      using False by (simp add: readUInt16BE_def L_def)
    have "handleMessage_iter buf = check_end b1 L"
      unfolding handleMessage_iter_def Some option.case b1
      using False rd
      by (auto simp: Let_def check_end_def actualEndBytes_eq)
    then have "handleMessage_iter buf = check_end b1 (unat (b1 ! 2) * 256 + unat (b1 ! 3))"
      by (simp only: L_def)
    then show ?thesis using False by (simp add: Some at_front_def b1_def)
  qed
qed


lemma indexOf_Some:
  "indexOf buf pat = Some i \<Longrightarrow> i < length buf \<and> take (length pat) (drop i buf) = pat"
proof (induction buf arbitrary: i)
  case Nil
  then show ?case by simp
next
  case (Cons b bs)
  show ?case
  proof (cases "take (length pat) (b # bs) = pat")
    case True
    with Cons.prems have "i = 0" by (simp del: take_Cons')
    with True show ?thesis by (simp del: take_Cons')
  next
    case False
    with Cons.prems obtain j where j: "indexOf bs pat = Some j" and i: "i = Suc j"
      by (auto simp del: take_Cons' split: if_splits)
    from Cons.IH [OF j] i show ?thesis by simp
  qed
qed

lemma take_eq_length: "take (length pat) xs = pat \<Longrightarrow> length pat \<le> length xs"
proof -
  assume "take (length pat) xs = pat"
  then have "length (take (length pat) xs) = length pat" by simp
  then show ?thesis by simp
qed

lemma take_append_le: "n \<le> length xs \<Longrightarrow> take n (xs @ d) = take n xs"
  by simp

lemma indexOf_append:
  "indexOf buf pat = Some i \<Longrightarrow> indexOf (buf @ d) pat = Some i"
proof (induction buf arbitrary: i)
  case Nil
  then show ?case by simp
next
  case (Cons b bs)
  show ?case
  proof (cases "take (length pat) (b # bs) = pat")
    case True
    then have "length pat \<le> length (b # bs)" by (rule take_eq_length)
    then have "take (length pat) ((b # bs) @ d) = take (length pat) (b # bs)"
      by (rule take_append_le)
    with True have "take (length pat) (b # (bs @ d)) = pat" by simp
    moreover have "i = 0" using True Cons.prems by (simp del: take_Cons')
    ultimately show ?thesis by (simp del: take_Cons')
  next
    case False
    with Cons.prems obtain j where j: "indexOf bs pat = Some j" and i: "i = Suc j"
      by (auto simp del: take_Cons' split: if_splits)
    from indexOf_Some [OF j] have "length pat \<le> length bs"
      using take_eq_length [of pat "drop j bs"] by simp
    then have "length pat \<le> length (b # bs)" by simp
    then have "take (length pat) ((b # bs) @ d) = take (length pat) (b # bs)"
      by (rule take_append_le)
    with False have "take (length pat) (b # (bs @ d)) \<noteq> pat" by simp
    then show ?thesis using Cons.IH [OF j] i by (simp del: take_Cons')
  qed
qed

lemma indexOf_front:
  "take (length pat) buf = pat \<Longrightarrow> buf \<noteq> [] \<Longrightarrow> indexOf buf pat = Some 0"
  by (cases buf) (simp_all del: take_Cons')


lemma at_front_Break: "at_front b1 = Break b \<Longrightarrow> b = b1"
  by (auto simp: at_front_def check_end_def split: if_splits)

lemma at_front_not_Throw: "at_front b1 \<noteq> Throw e b"
  by (auto simp: at_front_def check_end_def split: if_splits)

lemma at_front_append:
  assumes "at_front b1 = r" and "\<forall>b. r \<noteq> Break b"
  shows "at_front (b1 @ d) =
    (case r of Skip b \<Rightarrow> Skip (b @ d) | Deliver m b \<Rightarrow> Deliver m (b @ d) | other \<Rightarrow> other)"
proof -
  have len: "\<not> length b1 < 4"
    using assms by (auto simp: at_front_def)
  define L where "L = unat (b1 ! 2) * 256 + unat (b1 ! 3)"
  have r: "r = check_end b1 L"
    using assms(1) len by (simp add: at_front_def L_def)
  have L: "L \<le> length b1"
    using assms(2) r by (auto simp: check_end_def split: if_splits)
  have "at_front (b1 @ d) = check_end (b1 @ d) L"
    using len by (simp add: at_front_def L_def nth_append)
  also have "\<dots> = (case r of Skip b \<Rightarrow> Skip (b @ d) | Deliver m b \<Rightarrow> Deliver m (b @ d)
                      | other \<Rightarrow> other)"
    using L len by (simp add: r check_end_def)
  finally show ?thesis .
qed

lemma handleMessage_iter_not_Throw: "handleMessage_iter buf \<noteq> Throw e b"
  by (simp add: handleMessage_iter_front at_front_not_Throw split: option.splits)

lemma handleMessage_iter_Break_nonempty:
  assumes "handleMessage_iter buf = Break b" and "buf \<noteq> []"
  shows "b \<noteq> [] \<and> handleMessage_iter (buf @ d) = handleMessage_iter (b @ d)"
proof (cases "indexOf buf startBytes")
  case None
  with assms show ?thesis by (simp add: handleMessage_iter_front)
next
  case (Some i)
  then have af: "at_front (drop i buf) = Break b"
    using assms(1) by (simp add: handleMessage_iter_front)
  then have b: "b = drop i buf" by (rule at_front_Break)
  from indexOf_Some [OF Some] have i: "i < length buf"
    and st: "take (length startBytes) b = startBytes" by (simp_all add: b)
  from i have ne: "b \<noteq> []" by (simp add: b)
  have "length startBytes \<le> length b" using st by (rule take_eq_length)
  then have "take (length startBytes) (b @ d) = startBytes"
    using st by (simp del: length_startBytes)
  then have "indexOf (b @ d) startBytes = Some 0"
    using ne by (intro indexOf_front) simp_all
  moreover have "indexOf (buf @ d) startBytes = Some i"
    using Some by (rule indexOf_append)
  ultimately have "handleMessage_iter (buf @ d) = handleMessage_iter (b @ d)"
    using i by (simp add: handleMessage_iter_front b)
  with ne show ?thesis by simp
qed

lemma handleMessage_iter_append:
  assumes "handleMessage_iter buf = r" and "\<forall>b. r \<noteq> Break b"
  shows "handleMessage_iter (buf @ d) =
    (case r of Skip b \<Rightarrow> Skip (b @ d) | Deliver m b \<Rightarrow> Deliver m (b @ d) | other \<Rightarrow> other)"
proof (cases "indexOf buf startBytes")
  case None
  then have "handleMessage_iter buf = Break buf" by (simp add: handleMessage_iter_front)
  with assms show ?thesis by auto
next
  case (Some i)
  then have af: "at_front (drop i buf) = r"
    using assms(1) by (simp add: handleMessage_iter_front)
  from indexOf_Some [OF Some] have i: "i < length buf" by simp
  have "indexOf (buf @ d) startBytes = Some i"
    using Some by (rule indexOf_append)
  then have "handleMessage_iter (buf @ d) = at_front (drop i buf @ d)"
    using i by (simp add: handleMessage_iter_front)
  then show ?thesis using at_front_append [OF af assms(2)] by simp
qed

lemma handleMessage_loop_append:
  "handleMessage_loop (buf @ d) =
     (case handleMessage_loop buf of
        (fs, b, e) \<Rightarrow> (case handleMessage_loop (b @ d) of (fs', b', e') \<Rightarrow> (fs @ fs', b', e')))"
proof (induction buf rule: handleMessage_loop.induct)
  case (1 buf)
  show ?case
  proof (cases "buf = []")
    case True
    then show ?thesis by (simp add: handleMessage_loop.simps [of "[]"])
  next
    case ne: False
    show ?thesis
    proof (cases "handleMessage_iter buf")
      case (Break b)
      from handleMessage_iter_Break_nonempty [OF Break ne, of d]
      have b: "b \<noteq> []" and eq: "handleMessage_iter (buf @ d) = handleMessage_iter (b @ d)"
        by simp_all
      have "handleMessage_loop (buf @ d) = handleMessage_loop (b @ d)"
        using ne b eq
        by (simp add: handleMessage_loop.simps [of "buf @ d"] handleMessage_loop.simps [of "b @ d"])
      moreover have "handleMessage_loop buf = ([], b, None)"
        using ne Break by (simp add: handleMessage_loop.simps [of buf])
      ultimately show ?thesis by (simp split: prod.splits)
    next
      case (Skip b)
      then have "handleMessage_iter (buf @ d) = Skip (b @ d)"
        using handleMessage_iter_append [of buf "Skip b" d] by simp
      then have "handleMessage_loop (buf @ d) = handleMessage_loop (b @ d)"
        using ne by (simp add: handleMessage_loop.simps [of "buf @ d"])
      moreover have "handleMessage_loop buf = handleMessage_loop b"
        using ne Skip by (simp add: handleMessage_loop.simps [of buf])
      ultimately show ?thesis using "1.IH"(1) [OF _ Skip] ne by simp
    next
      case (Deliver m b)
      then have "handleMessage_iter (buf @ d) = Deliver m (b @ d)"
        using handleMessage_iter_append [of buf "Deliver m b" d] by simp
      then have "handleMessage_loop (buf @ d) =
          (case handleMessage_loop (b @ d) of (fs, r, e) \<Rightarrow> (m # fs, r, e))"
        using ne by (simp add: handleMessage_loop.simps [of "buf @ d"])
      moreover have "handleMessage_loop buf =
          (case handleMessage_loop b of (fs, r, e) \<Rightarrow> (m # fs, r, e))"
        using ne Deliver by (simp add: handleMessage_loop.simps [of buf])
      ultimately show ?thesis using "1.IH"(2) [OF _ Deliver] ne
        by (simp split: prod.splits)
    next
      case (Throw e b)
      then show ?thesis by (simp add: handleMessage_iter_not_Throw)
    qed
  qed
qed

lemma feed_eq_loop:
  "feed (c # cs) s =
     (case handleMessage_loop (buffer s @ concat (c # cs)) of
        (frames, b, e) \<Rightarrow> (s\<lparr>buffer := b\<rparr>, frames))"
proof (induction cs arbitrary: c s)
  case Nil
  show ?case
    by (simp add: handleMessage_def split: prod.splits)
next
  case (Cons c' cs)
  obtain fs b e where l: "handleMessage_loop (buffer s @ c) = (fs, b, e)"
    by (cases "handleMessage_loop (buffer s @ c)")
  have hm: "handleMessage c s = (s\<lparr>buffer := b\<rparr>, fs, e)"
    by (simp add: handleMessage_def l)
  have split: "buffer s @ concat (c # c' # cs) = (buffer s @ c) @ concat (c' # cs)"
    by simp
  have big: "handleMessage_loop (buffer s @ concat (c # c' # cs)) =
     (case handleMessage_loop (b @ concat (c' # cs)) of
        (fs', b', e') \<Rightarrow> (fs @ fs', b', e'))"
    unfolding split
    by (simp only: handleMessage_loop_append [of "buffer s @ c" "concat (c' # cs)"] l prod.case)
  have "feed (c # c' # cs) s =
      (case feed (c' # cs) (s\<lparr>buffer := b\<rparr>) of (s2, frames') \<Rightarrow> (s2, fs @ frames'))"
    by (simp only: feed.simps(2) [of c] hm prod.case)
  also have "\<dots> = (case handleMessage_loop (buffer s @ concat (c # c' # cs)) of
        (frames, b, e) \<Rightarrow> (s\<lparr>buffer := b\<rparr>, frames))"
    by (simp only: Cons.IH big) (simp split: prod.splits)
  finally show ?case .
qed




lemma readUInt16BE_Inr:
  "readUInt16BE buf off = Inr v \<Longrightarrow>
     off + 2 \<le> length buf \<and> v = unat (buf ! off) * 256 + unat (buf ! (off + 1))"
  by (auto simp: readUInt16BE_def split: if_splits)

lemma bad_end_iter:
  assumes st: "take 2 B = startBytes" and rd: "readUInt16BE B 2 = Inr L" and le: "L \<le> length B"
    and bad: "subarray_from (subarray B 0 (int L)) (int L - 2) \<noteq> endBytes"
  shows "handleMessage_iter B = Skip (drop 2 B)"
proof -
  from readUInt16BE_Inr [OF rd] have len: "4 \<le> length B"
    and L: "L = unat (B ! 2) * 256 + unat (B ! 3)" by simp_all
  have ne: "B \<noteq> []" using len by auto
  have "indexOf B startBytes = Some 0"
    using st ne by (intro indexOf_front) simp_all
  then have "handleMessage_iter B = at_front B"
    by (simp add: handleMessage_iter_front)
  also have "\<dots> = check_end B L"
    using len by (simp add: at_front_def L)
  also have "\<dots> = Skip (drop 2 B)"
    using le bad actualEndBytes_eq [OF le] by (simp add: check_end_def)
  finally show ?thesis .
qed

lemma valid_frame_first:
  assumes idx: "indexOf (pre @ v @ rest) startBytes = Some (length pre)" and v: "valid_frame v"
  shows "handleMessage_loop (pre @ v @ rest) =
     (case handleMessage_loop rest of (fs, b, e) \<Rightarrow> (v # fs, b, e))"
proof -
  from v have rd: "readUInt16BE v 2 = Inr (length v)"
    and en: "drop (length v - 2) v = endBytes" by (simp_all add: valid_frame_def)
  from readUInt16BE_Inr [OF rd] have len: "4 \<le> length v"
    and L: "length v = unat (v ! 2) * 256 + unat (v ! 3)" by simp_all
  have "handleMessage_iter (pre @ v @ rest) = at_front (v @ rest)"
    using idx by (simp add: handleMessage_iter_front)
  also have "\<dots> = check_end (v @ rest) (length v)"
    using len L by (simp add: at_front_def nth_append)
  also have "\<dots> = Deliver v rest"
    using len en by (simp add: check_end_def)
  finally have "handleMessage_iter (pre @ v @ rest) = Deliver v rest" .
  moreover have "pre @ v @ rest \<noteq> []" using len by auto
  ultimately show ?thesis
    by (simp add: handleMessage_loop.simps [of "pre @ v @ rest"])
qed

lemma packet_end_eq:
  "L \<le> length B \<Longrightarrow>
   (subarray_from (subarray B 0 (int L)) (- 2) = endBytes)
   = (subarray_from (subarray B 0 (int L)) (int L - 2) = endBytes)"
proof (cases "2 \<le> L")
  case True
  assume "L \<le> length B"
  with True show ?thesis
    by (simp add: actualEndBytes_eq subarray_from_neg nat_diff_distrib')
next
  case False
  assume le: "L \<le> length B"
  have "length (subarray_from (take L B) (- 2)) \<le> L"
    using le by (simp add: subarray_from_neg)
  then have "subarray_from (take L B) (- 2) \<noteq> endBytes"
    using False by (metis length_endBytes)
  then show ?thesis using False le actualEndBytes_eq [OF le] by simp
qed

lemma subarray_0_numeral [simp]: "subarray buf 0 (numeral k) = take (numeral k) buf"
  using subarray_0_nat [of buf "numeral k"] by simp

lemma bad_end_handleData:
  assumes st: "take 2 B = startBytes" and rd: "readUInt16BE B 2 = Inr L" and le: "L \<le> length B"
    and bad: "subarray_from (subarray B 0 (int L)) (int L - 2) \<noteq> endBytes"
    and six: "6 \<le> length B" and B: "buffer_v2 t = B"
  shows "handleData_loop (Suc fuel) t = handleData_loop fuel (t\<lparr>buffer_v2 := drop L B\<rparr>)"
proof -
  have "subarray_from (subarray B 0 (int L)) (- 2) \<noteq> endBytes"
    using bad packet_end_eq [OF le] by simp
  then show ?thesis
    using st rd le six B by (simp add: handleData_loop.simps Let_def)
qed


lemma handleData_loop_exit:
  "length (buffer_v2 s) < 6 \<Longrightarrow> handleData_loop (Suc n) s = Some (s, [], None)"
  by (simp add: handleData_loop.simps)

lemma handleData_loop_discard:
  "6 \<le> length (buffer_v2 s) \<Longrightarrow> take 2 (buffer_v2 s) \<noteq> startBytes \<Longrightarrow>
   indexOf (buffer_v2 s) startBytes = None \<Longrightarrow>
   handleData_loop (Suc n) s = handleData_loop n (s\<lparr>buffer_v2 := []\<rparr>)"
  by (simp add: handleData_loop.simps)

lemma handleData_loop_resync:
  "6 \<le> length (buffer_v2 s) \<Longrightarrow> take 2 (buffer_v2 s) \<noteq> startBytes \<Longrightarrow>
   indexOf (buffer_v2 s) startBytes = Some idx \<Longrightarrow>
   handleData_loop (Suc n) s = handleData_loop n (s\<lparr>buffer_v2 := drop idx (buffer_v2 s)\<rparr>)"
  by (simp add: handleData_loop.simps)

lemma handleData_loop_deliver:
  "6 \<le> length (buffer_v2 s) \<Longrightarrow> take 2 (buffer_v2 s) = startBytes \<Longrightarrow>
   readUInt16BE (buffer_v2 s) 2 = Inr L \<Longrightarrow> L \<le> length (buffer_v2 s) \<Longrightarrow>
   subarray_from (take L (buffer_v2 s)) (- 2) = endBytes \<Longrightarrow>
   handlePacket (take L (buffer_v2 s)) (s\<lparr>buffer_v2 := drop L (buffer_v2 s)\<rparr>) = Inr s2 \<Longrightarrow>
   handleData_loop (Suc n) s =
     (case handleData_loop n s2 of
        None \<Rightarrow> None
      | Some (s3, ps, e) \<Rightarrow> Some (s3, take L (buffer_v2 s) # ps, e))"
  by (simp add: handleData_loop.simps Let_def)

lemma handleData_loop_bad_end:
  "6 \<le> length (buffer_v2 s) \<Longrightarrow> take 2 (buffer_v2 s) = startBytes \<Longrightarrow>
   readUInt16BE (buffer_v2 s) 2 = Inr L \<Longrightarrow> L \<le> length (buffer_v2 s) \<Longrightarrow>
   subarray_from (take L (buffer_v2 s)) (- 2) \<noteq> endBytes \<Longrightarrow>
   handleData_loop (Suc n) s = handleData_loop n (s\<lparr>buffer_v2 := drop L (buffer_v2 s)\<rparr>)"
  by (simp add: handleData_loop.simps Let_def)

lemmas handleData_eval =
  handleData_def numeral_3_eq_3 handleData_loop_exit handleData_loop_discard
  handleData_loop_resync handleData_loop_deliver handleData_loop_bad_end
  new_EclipseHCI_v2_def readUInt16BE_def handlePacket_def startBytes_def endBytes_def
  subarray_from_neg subarray_def clampIndex_def Let_def

lemmas handleMessage_eval =
  handleMessage_def handleMessage_loop.simps handleMessage_iter_def readUInt16BE_def
  startBytes_def endBytes_def Let_def subarray_from_def subarray_def clampIndex_def

text \<open>
  Claim C4, as it holds.  For \<^verbatim>\<open>handleMessage\<close>, feeding the chunks \<open>c # cs\<close> one
  call after the other passes to \<^verbatim>\<open>processMessage\<close> exactly the messages, in the same
  order, that one call with all the bytes passes, and leaves the same buffer; this holds
  from any buffer, the empty one included.
\<close>

theorem C4_chunked_feed:
  "feed (c # cs) s =
     (fst (handleMessage (concat (c # cs)) s), fst (snd (handleMessage (concat (c # cs)) s)))"
  by (simp only: feed_eq_loop handleMessage_def split: prod.splits) simp

theorem C4_chunked_feed_witness:
  "feed [[0x00, 0x5A], [0x0F, 0x00, 0x08, 0x00], [0x0D, 0x2E, 0x8D, 0x5A]] (new_EclipseHCI 100)
   = ((new_EclipseHCI 100)\<lparr>buffer := [0x5A]\<rparr>, [frame_000D])"
  using C4_chunked_feed
    [of "[0x00, 0x5A]" "[[0x0F, 0x00, 0x08, 0x00], [0x0D, 0x2E, 0x8D, 0x5A]]" "new_EclipseHCI 100"]
  by (simp add: handleMessage_eval new_EclipseHCI_def frame_000D_def)

text \<open>
  Claim C4 as stated fails for \<^verbatim>\<open>handleData\<close>: the stream \<open>00 00 00 00 00 5A 0F 00 08
  00 0D 2E 8D\<close> in one call delivers \<open>frame_000D\<close>; split behind the \<open>5A\<close> it delivers
  nothing, because a buffer of six bytes without a start marker is emptied.
\<close>

theorem C4_handleData_counterexample:
  "handleData 3 ([0x00, 0x00, 0x00, 0x00, 0x00, 0x5A] @ [0x0F, 0x00, 0x08, 0x00, 0x0D, 0x2E, 0x8D])
     new_EclipseHCI_v2 = Some (new_EclipseHCI_v2, [frame_000D], None)
   \<and> feed_v2 3 [[0x00, 0x00, 0x00, 0x00, 0x00, 0x5A], [0x0F, 0x00, 0x08, 0x00, 0x0D, 0x2E, 0x8D]]
     new_EclipseHCI_v2 = Some (new_EclipseHCI_v2, [])"
  by (simp add: handleData_eval frame_000D_def)

text \<open>
  Claim C1, as it holds.  Let the buffer \<open>B\<close> after the append start with the start
  marker, hold a length field \<open>L\<close> and at least \<open>L\<close> bytes, and let the last two bytes of
  the \<open>L\<close>-byte candidate differ from the end marker.  Then one pass of \<^verbatim>\<open>handleMessage\<close>
  removes exactly the two marker bytes and the call goes on with the rest; a valid frame
  that starts at the first start marker of the rest (so one that follows the removed
  marker directly) is the first message passed to \<^verbatim>\<open>processMessage\<close> in that call.
  \<^verbatim>\<open>handleData\<close>, in the same state, removes all \<open>L\<close> bytes of the candidate.
\<close>

theorem C1_bad_end_marker:
  assumes "take 2 B = startBytes" and "readUInt16BE B 2 = Inr L" and "L \<le> length B"
    and "subarray_from (subarray B 0 (int L)) (int L - 2) \<noteq> endBytes"
  shows "(buffer s @ data = B \<longrightarrow>
            handleMessage_iter B = Skip (drop 2 B)
            \<and> handleMessage data s =
                (case handleMessage_loop (drop 2 B) of (frames, b, e) \<Rightarrow> (s\<lparr>buffer := b\<rparr>, frames, e))
            \<and> (\<forall>pre v rest.
                  drop 2 B = pre @ v @ rest \<and> indexOf (drop 2 B) startBytes = Some (length pre)
                  \<and> valid_frame v
                  \<longrightarrow> fst (snd (handleMessage data s)) = v # fst (handleMessage_loop rest)))
       \<and> (buffer_v2 t @ data = B \<and> 6 \<le> length B \<longrightarrow>
            handleData (Suc fuel) data t = handleData_loop fuel (t\<lparr>buffer_v2 := drop L B\<rparr>))"
proof -
  have it: "handleMessage_iter B = Skip (drop 2 B)"
    using assms by (rule bad_end_iter)
  have "B \<noteq> []" using assms(2) by (auto simp: readUInt16BE_def split: if_splits)
  then have lp: "handleMessage_loop B = handleMessage_loop (drop 2 B)"
    using it by (simp add: handleMessage_loop.simps [of B])
  have first: "fst (handleMessage_loop B) = v # fst (handleMessage_loop rest)"
    if "drop 2 B = pre @ v @ rest" "indexOf (drop 2 B) startBytes = Some (length pre)"
      "valid_frame v" for pre v rest
    using that valid_frame_first [of pre v rest] lp by (simp split: prod.splits)
  have hm: "buffer s @ data = B \<Longrightarrow> fst (snd (handleMessage data s)) = fst (handleMessage_loop B)"
    by (simp add: handleMessage_def split: prod.splits)
  have hd: "handleData (Suc fuel) data t = handleData_loop fuel (t\<lparr>buffer_v2 := drop L B\<rparr>)"
    if "buffer_v2 t @ data = B" "6 \<le> length B"
    using bad_end_handleData [OF assms that(2), of "t\<lparr>buffer_v2 := B\<rparr>" fuel] that(1)
    by (simp add: handleData_def)
  show ?thesis
    using it lp first hm hd by (auto simp: handleMessage_def)
qed

theorem C1_bad_end_marker_witness:
  "handleMessage_iter corrupt_candidate = Skip (drop 2 corrupt_candidate)
   \<and> fst (snd (handleMessage corrupt_candidate (new_EclipseHCI 100)))
       = frame_000D # fst (handleMessage_loop [0x00, 0x00])
   \<and> handleData (Suc 2) corrupt_candidate new_EclipseHCI_v2
       = handleData_loop 2 (new_EclipseHCI_v2\<lparr>buffer_v2 := drop 14 corrupt_candidate\<rparr>)"
proof -
  have h1: "take 2 corrupt_candidate = startBytes"
    by (simp add: corrupt_candidate_def startBytes_def)
  have h2: "readUInt16BE corrupt_candidate 2 = Inr 14"
    by (simp add: corrupt_candidate_def readUInt16BE_def)
  have h3: "14 \<le> length corrupt_candidate"
    by (simp add: corrupt_candidate_def)
  have h4: "subarray_from (subarray corrupt_candidate 0 (int 14)) (int 14 - 2) \<noteq> endBytes"
    by (simp add: corrupt_candidate_def endBytes_def subarray_from_def subarray_def
        clampIndex_def Let_def)
  have b1: "buffer (new_EclipseHCI 100) @ corrupt_candidate = corrupt_candidate"
    by (simp add: new_EclipseHCI_def)
  have b2: "buffer_v2 new_EclipseHCI_v2 @ corrupt_candidate = corrupt_candidate
            \<and> 6 \<le> length corrupt_candidate"
    by (simp add: new_EclipseHCI_v2_def corrupt_candidate_def)
  have p: "drop 2 corrupt_candidate = [0x00, 0x0E] @ frame_000D @ [0x00, 0x00]
           \<and> indexOf (drop 2 corrupt_candidate) startBytes = Some (length [0x00 :: byte, 0x0E])
           \<and> valid_frame frame_000D"
    by (simp add: corrupt_candidate_def frame_000D_def startBytes_def endBytes_def
        valid_frame_def readUInt16BE_def)
  from C1_bad_end_marker [OF h1 h2 h3 h4, of "new_EclipseHCI 100" corrupt_candidate
      new_EclipseHCI_v2 2] b1 b2 p
  show ?thesis by blast
qed

text \<open>
  Claim C1 as stated fails for \<^verbatim>\<open>handleData\<close>: on \<open>corrupt_candidate\<close> (start marker
  at offset 0, length field 14, 14 bytes buffered, last two bytes \<open>00 00\<close>) it removes
  the whole candidate, not two bytes, and the frame behind the candidate's marker and
  length field is not delivered.
\<close>

theorem C1_handleData_counterexample:
  "take 2 corrupt_candidate = startBytes
   \<and> readUInt16BE corrupt_candidate 2 = Inr 14
   \<and> 14 \<le> length corrupt_candidate
   \<and> subarray_from (subarray corrupt_candidate 0 14) (- 2) \<noteq> endBytes
   \<and> handleData 3 corrupt_candidate new_EclipseHCI_v2 = Some (new_EclipseHCI_v2, [], None)
   \<and> handleMessage corrupt_candidate (new_EclipseHCI 100)
       = ((new_EclipseHCI 100)\<lparr>buffer := [0x00, 0x00]\<rparr>, [frame_000D], None)"
  by (simp add: handleData_eval handleMessage_eval corrupt_candidate_def frame_000D_def
      new_EclipseHCI_def)

text \<open>
  Claim C7 as stated fails: the 14 bytes of the scenario carry the length field \<open>0x000B\<close>,
  so the 11-byte candidate ends in \<open>CE DE\<close>; \<^verbatim>\<open>handleMessage\<close> drops the start marker,
  finds no other, passes nothing to \<^verbatim>\<open>processMessage\<close> and keeps 12 bytes.
\<close>

theorem C7_scenario_counterexample:
  "handleMessage scenario_bytes (new_EclipseHCI 100)
   = ((new_EclipseHCI 100)\<lparr>buffer := drop 2 scenario_bytes\<rparr>, [], None)"
  by (simp add: handleMessage_eval scenario_bytes_def new_EclipseHCI_def)

text \<open>
  Claim C7, amended.  With the length field \<open>0x000E\<close> the 14 bytes are one frame:
  \<^verbatim>\<open>handleMessage\<close> passes exactly that frame to \<^verbatim>\<open>processMessage\<close> and leaves the buffer
  empty; \<^verbatim>\<open>processMessage\<close> reads message id \<open>0x000D\<close>, the flag G alone, HCIv2 and
  protocol version 1, finds no payload and returns without calling the handler.
\<close>

theorem C7_scenario_frame:
  "handleMessage scenario_frame (s\<lparr>buffer := []\<rparr>) = (s\<lparr>buffer := []\<rparr>, [scenario_frame], None)
   \<and> processMessage scenario_frame
     = NoPayload \<lparr>messageID = 0x000D,
         flags = \<lparr>flag_E = False, flag_M = False, flag_U = False, flag_G = True, flag_S = False,
                   flag_N = False, flag_Reserved1 = False, flag_Reserved2 = False\<rparr>,
         hciVersion = HCIv2, protocolVersion = Some 1\<rparr>"
proof -
  have "handleMessage scenario_frame (s\<lparr>buffer := []\<rparr>)
        = (s\<lparr>buffer := []\<rparr>, [scenario_frame], None)"
    by (simp add: handleMessage_eval scenario_frame_def)
  moreover have "processMessage scenario_frame
     = NoPayload \<lparr>messageID = 0x000D,
         flags = \<lparr>flag_E = False, flag_M = False, flag_U = False, flag_G = True, flag_S = False,
                   flag_N = False, flag_Reserved1 = False, flag_Reserved2 = False\<rparr>,
         hciVersion = HCIv2, protocolVersion = Some 1\<rparr>"
    by (simp add: processMessage_def detectVersion_def readUInt16BE_def readUInt8_def
        decodeFlags_def expectedV2Signature_def startBytes_def endBytes_def Let_def
        subarray_def clampIndex_def scenario_frame_def)
  ultimately show ?thesis by simp
qed

theorem C7_scenario_frame_witness:
  "fst (snd (handleMessage scenario_frame (new_EclipseHCI 100))) = [scenario_frame]
   \<and> buffer (fst (handleMessage scenario_frame (new_EclipseHCI 100))) = []"
  using C7_scenario_frame [of "new_EclipseHCI 100"]
  by (simp add: new_EclipseHCI_def)



section \<open>Frames built by \<^verbatim>\<open>getRequest\<close>\<close>

lemma u16_roundtrip:
  assumes "0 \<le> v" "v \<le> 65535"
  shows "unat (word_of_int (v div 256) :: byte) * 256 + unat (word_of_int (v mod 256) :: byte) = nat v"
proof -
  have a: "0 \<le> v div 256" "v div 256 < 256" using assms by auto
  have b: "0 \<le> v mod 256" "v mod 256 < 256" by auto
  have "uint (word_of_int (v div 256) :: byte) = v div 256"
    using a by (simp add: uint_word_of_int take_bit_eq_mod)
  moreover have "uint (word_of_int (v mod 256) :: byte) = v mod 256"
    using b by (simp add: uint_word_of_int take_bit_eq_mod)
  ultimately have "int (unat (word_of_int (v div 256) :: byte) * 256
      + unat (word_of_int (v mod 256) :: byte)) = v"
    by simp
  then show ?thesis by linarith
qed

lemma flags_G: "(word_of_int (js_or fl 8) :: byte) AND 0x08 = 0x08"
  unfolding js_or_def
  by (rule bit_word_eqI) (auto simp: bit_simps)


lemma writeUInt16BE_Inr:
  "writeUInt16BE v = Inr bs \<Longrightarrow>
     0 \<le> v \<and> v \<le> 65535 \<and> bs = [word_of_int (v div 256), word_of_int (v mod 256)]"
  by (auto simp: writeUInt16BE_def split: if_splits)

lemma writeUInt8_Inr:
  "writeUInt8 v = Inr bs \<Longrightarrow> 0 \<le> v \<and> v \<le> 255 \<and> bs = [word_of_int v]"
  by (auto simp: writeUInt8_def split: if_splits)

lemma getRequest_Inr:
  assumes "getRequest r fl = Inr frame"
  shows "\<exists>front. frame = front @ endBytes
           \<and> take 7 front = startBytes @ [word_of_int (int (totalLength r) div 256),
                     word_of_int (int (totalLength r) mod 256),
                     word_of_int (RequestID r div 256), word_of_int (RequestID r mod 256),
                     word_of_int (js_or fl 8)]
           \<and> length front + 2 = totalLength r \<and> totalLength r \<le> 65535"
proof (cases "Version r = 2")
  case True
  with assms show ?thesis
    by (auto simp: getRequest_def Let_def totalLength_def preamble_def startBytes_def
        split: sum.splits dest!: writeUInt16BE_Inr writeUInt8_Inr
        intro!: exI [of _ "startBytes @ _"])
next
  case False
  with assms show ?thesis
    by (auto simp: getRequest_def Let_def totalLength_def startBytes_def
        split: sum.splits dest!: writeUInt16BE_Inr writeUInt8_Inr
        intro!: exI [of _ "startBytes @ _"])
qed

lemma getRequest_returns:
  "(\<exists>frame. getRequest r fl = Inr frame) =
     (totalLength r \<le> 65535 \<and> 0 \<le> RequestID r \<and> RequestID r \<le> 65535
      \<and> 0 \<le> js_or fl 8 \<and> js_or fl 8 \<le> 255)"
  by (auto simp: getRequest_def Let_def totalLength_def preamble_def writeUInt16BE_def
      writeUInt8_def split: sum.splits if_splits)

text \<open>
  Claim C9.  Whatever the request (version 2 or not, any payload) and the flags argument,
  a frame returned by \<^verbatim>\<open>getRequest\<close> starts with \<open>5A 0F\<close>, ends with \<open>2E 8D\<close>, carries
  its own byte count as big-endian 16-bit length at offset 2, and has bit 3 of the flags
  byte at offset 6 set.  \<^verbatim>\<open>getRequest\<close> returns a frame exactly when the byte count,
  the request id and the flags fit their fields; otherwise a write throws.
\<close>

theorem C9_getRequest_frame:
  "(getRequest r fl = Inr frame \<longrightarrow>
      take 2 frame = startBytes
      \<and> drop (length frame - 2) frame = endBytes
      \<and> readUInt16BE frame 2 = Inr (length frame)
      \<and> (frame ! 6) AND 0x08 = 0x08)
   \<and> ((\<exists>f. getRequest r fl = Inr f) =
       (totalLength r \<le> 65535 \<and> 0 \<le> RequestID r \<and> RequestID r \<le> 65535
        \<and> 0 \<le> js_or fl 8 \<and> js_or fl 8 \<le> 255))"
proof -
  have "take 2 frame = startBytes
      \<and> drop (length frame - 2) frame = endBytes
      \<and> readUInt16BE frame 2 = Inr (length frame)
      \<and> (frame ! 6) AND 0x08 = 0x08" if g: "getRequest r fl = Inr frame"
  proof -
    from getRequest_Inr [OF g] obtain front where
      f: "frame = front @ endBytes"
      and t7: "take 7 front = startBytes @ [word_of_int (int (totalLength r) div 256),
                     word_of_int (int (totalLength r) mod 256),
                     word_of_int (RequestID r div 256), word_of_int (RequestID r mod 256),
                     word_of_int (js_or fl 8)]"
      and len: "length front + 2 = totalLength r" and le: "totalLength r \<le> 65535"
      by blast
    have l7: "7 \<le> length front"
      using arg_cong [OF t7, of length] by simp
    have nth: "frame ! i = take 7 front ! i" if "i < 7" for i
      using that l7 by (simp add: f nth_append)
    have "take 2 frame = take 2 (take 7 front)"
      using l7 by (simp add: f)
    then have 1: "take 2 frame = startBytes" by (simp only: t7) (simp add: startBytes_def)
    have 2: "drop (length frame - 2) frame = endBytes" by (simp add: f)
    have n2: "frame ! 2 = word_of_int (int (totalLength r) div 256)"
      and n3: "frame ! 3 = word_of_int (int (totalLength r) mod 256)"
      and 6: "frame ! 6 = word_of_int (js_or fl 8)"
      by (simp_all add: nth t7 startBytes_def)
    have lf: "length frame = totalLength r" using len by (simp add: f)
    have "4 \<le> length frame" using l7 by (simp add: f)
    then have "readUInt16BE frame 2 = Inr (unat (frame ! 2) * 256 + unat (frame ! 3))"
      by (simp add: readUInt16BE_def)
    also have "unat (frame ! 2) * 256 + unat (frame ! 3) = totalLength r"
      unfolding n2 n3 using u16_roundtrip [of "int (totalLength r)"] le by simp
    finally have 3: "readUInt16BE frame 2 = Inr (length frame)" by (simp only: lf)
    have 4: "(frame ! 6) AND 0x08 = 0x08" by (simp only: 6 flags_G)
    from 1 2 3 4 show ?thesis by simp
  qed
  then show ?thesis using getRequest_returns [of r fl] by blast
qed


theorem C9_getRequest_frame_witness:
  "getRequest (new_HCIRequest 0x000D [] False None 0) 0 = Inr scenario_frame
   \<and> take 2 scenario_frame = startBytes
   \<and> drop (length scenario_frame - 2) scenario_frame = endBytes
   \<and> readUInt16BE scenario_frame 2 = Inr (length scenario_frame)
   \<and> (scenario_frame ! 6) AND 0x08 = 0x08"
proof -
  have g: "getRequest (new_HCIRequest 0x000D [] False None 0) 0 = Inr scenario_frame"
    by (simp add: getRequest_def new_HCIRequest_def js_or_def writeUInt16BE_def writeUInt8_def
        startBytes_def endBytes_def preamble_def scenario_frame_def Let_def)
  with C9_getRequest_frame [of "new_HCIRequest 0x000D [] False None 0" 0 scenario_frame]
  show ?thesis by blast
qed



section \<open>Crosspoint level round trip\<close>


lemma length_encode_u16 [simp]: "length (encode_u16 v) = 2"
  by (simp add: encode_u16_def)

lemma length_encode_action [simp]: "length (encode_action a) = 6"
  by (simp add: encode_action_def)











section \<open>Level conversion at the reference points\<close>

lemma levelToDB_table:
  "map (\<lambda>entry. dBToLevel (levelToDB (level entry))) LEVEL_REFERENCE_TABLE
   = map level LEVEL_REFERENCE_TABLE"
  by (simp add: LEVEL_REFERENCE_TABLE_def levelToDB_def dBToLevel_def)

text \<open>
  Claim C2.  The code returns \<open>-3\<close> dB for level 204 and level 212 for 0 dB, because the
  table lookup comes first and the table pairs 204 with \<open>-3\<close> and 212 with 0; the claim,
  the formula in the doc comments and the README all say level 204 is 0 dB.  The other
  parts of the claim hold: level 0 and negative infinity map to each other, and every
  level of the table converts to dB and back to itself.
\<close>

theorem C2_level_204:
  "levelToDB 204 = Finite (- 3) \<and> dBToLevel (Finite 0) = 212
   \<and> levelToDB 0 = NegativeInfinity \<and> dBToLevel NegativeInfinity = 0
   \<and> map (\<lambda>entry. dBToLevel (levelToDB (level entry))) LEVEL_REFERENCE_TABLE
       = map level LEVEL_REFERENCE_TABLE"
  using levelToDB_table
  by (simp add: LEVEL_REFERENCE_TABLE_def levelToDB_def dBToLevel_def)

section \<open>Port validation\<close>

lemma createPayload_actions_invalid:
  "\<not> (1 \<le> destinationPort a \<and> destinationPort a \<le> 1024
       \<and> 1 \<le> sourcePort a \<and> sourcePort a \<le> 1024) \<Longrightarrow>
   \<exists>e. createPayload_actions (pre @ a # post) = Inl e"
  by (induction pre) (auto split: sum.splits)

text \<open>
  Claim C6, amended.  \<^verbatim>\<open>RequestCrosspointStatus\<close> takes ports \<open>0..1023\<close>: a port of 1024
  (any port outside the range) makes the constructor throw, and since \<^verbatim>\<open>addToQueue\<close> is
  then never called the queue is unchanged.  \<^verbatim>\<open>RequestCrosspointLevelActions\<close> takes
  ports \<open>1..1024\<close> and writes \<open>port - 1\<close>: ports outside \<open>1..1024\<close> make it throw with the
  queue unchanged, while 1024 is accepted, written as 1023 (\<open>03 FF\<close>), and the request
  is enqueued.
\<close>

theorem C6_port_1024:
  "(1 \<le> length ports \<and> length ports \<le> 495 \<and> (\<exists>port \<in> set ports. port < 0 \<or> port > 1023)
      \<longrightarrow> new_RequestCrosspointStatus ports urgent responseID now
            = Inl (Error ''Port number must be between 0 and 1023'')
          \<and> submit (new_RequestCrosspointStatus ports urgent responseID now) s
            = (Some (Error ''Port number must be between 0 and 1023''), s))
   \<and> (\<not> (1 \<le> destinationPort a \<and> destinationPort a \<le> 1024
           \<and> 1 \<le> sourcePort a \<and> sourcePort a \<le> 1024)
      \<longrightarrow> (\<exists>e. new_RequestCrosspointLevelActions (pre @ a # post) urgent responseID now = Inl e
               \<and> submit (new_RequestCrosspointLevelActions (pre @ a # post) urgent responseID now) s
                 = (Some e, s)))
   \<and> (0 \<le> lv \<and> lv \<le> 287
      \<longrightarrow> createPayload [\<lparr>destinationPort = 1024, sourcePort = 1024, levelValue = lv\<rparr>]
            = Inr ([0x00, 0x01] @ [0x03, 0xFF] @ [0x03, 0xFF] @
                   [word_of_int (lv div 256), word_of_int (lv mod 256)])
          \<and> messageQueue (snd (submit
               (new_RequestCrosspointLevelActions
                  [\<lparr>destinationPort = 1024, sourcePort = 1024, levelValue = lv\<rparr>]
                  urgent responseID now) s))
             \<noteq> messageQueue s)"
proof -
  have 1: "new_RequestCrosspointStatus ports urgent responseID now
            = Inl (Error ''Port number must be between 0 and 1023'')
          \<and> submit (new_RequestCrosspointStatus ports urgent responseID now) s
            = (Some (Error ''Port number must be between 0 and 1023''), s)"
    if "1 \<le> length ports \<and> length ports \<le> 495 \<and> (\<exists>port \<in> set ports. port < 0 \<or> port > 1023)"
    using that by (auto simp: new_RequestCrosspointStatus_def submit_def)
  have 2: "\<exists>e. new_RequestCrosspointLevelActions (pre @ a # post) urgent responseID now = Inl e
               \<and> submit (new_RequestCrosspointLevelActions (pre @ a # post) urgent responseID now) s
                 = (Some e, s)"
    if "\<not> (1 \<le> destinationPort a \<and> destinationPort a \<le> 1024
           \<and> 1 \<le> sourcePort a \<and> sourcePort a \<le> 1024)"
  proof -
    from createPayload_actions_invalid [OF that, of pre post]
    obtain e where "createPayload_actions (pre @ a # post) = Inl e" by blast
    then have "\<exists>e'. createPayload (pre @ a # post) = Inl e'"
      by (simp add: createPayload_def split: sum.splits)
    then show ?thesis
      by (auto simp: new_RequestCrosspointLevelActions_def submit_def)
  qed
  have 3: "createPayload [\<lparr>destinationPort = 1024, sourcePort = 1024, levelValue = lv\<rparr>]
            = Inr ([0x00, 0x01] @ [0x03, 0xFF] @ [0x03, 0xFF] @
                   [word_of_int (lv div 256), word_of_int (lv mod 256)])
          \<and> messageQueue (snd (submit
               (new_RequestCrosspointLevelActions
                  [\<lparr>destinationPort = 1024, sourcePort = 1024, levelValue = lv\<rparr>]
                  urgent responseID now) s))
             \<noteq> messageQueue s"
    if "0 \<le> lv \<and> lv \<le> 287"
  proof -
    have c: "createPayload [\<lparr>destinationPort = 1024, sourcePort = 1024, levelValue = lv\<rparr>]
            = Inr ([0x00, 0x01] @ [0x03, 0xFF] @ [0x03, 0xFF] @
                   [word_of_int (lv div 256), word_of_int (lv mod 256)])"
      using that by (simp add: createPayload_def isValidLevel_def writeUInt16BE_def)
    have "length (addToQueue r q) = Suc (length q)" for r q
      by (simp add: addToQueue_def splice0_def addToQueue_scan_takeWhile
          takeWhile_eq_take [symmetric] dropWhile_eq_drop [symmetric])
        (metis length_append takeWhile_dropWhile_id)
    then have "addToQueue r q \<noteq> q" for r q
      by (metis n_not_Suc_n)
    then show ?thesis
      using c by (simp add: new_RequestCrosspointLevelActions_def submit_def)
  qed
  from 1 2 3 show ?thesis by blast
qed


theorem C6_port_1024_witness:
  "new_RequestCrosspointStatus [1024] False None 0
     = Inl (Error ''Port number must be between 0 and 1023'')
   \<and> submit (new_RequestCrosspointStatus [1024] False None 0) (new_EclipseHCI 100)
     = (Some (Error ''Port number must be between 0 and 1023''), new_EclipseHCI 100)
   \<and> (\<exists>e. submit (new_RequestCrosspointLevelActions
                [\<lparr>destinationPort = 1025, sourcePort = 1, levelValue = 0\<rparr>] False None 0)
              (new_EclipseHCI 100) = (Some e, new_EclipseHCI 100))
   \<and> createPayload [\<lparr>destinationPort = 1024, sourcePort = 1024, levelValue = 0\<rparr>]
     = Inr [0x00, 0x01, 0x03, 0xFF, 0x03, 0xFF, 0x00, 0x00]"
  using C6_port_1024 [of "[1024]" False None 0 "new_EclipseHCI 100"
      "\<lparr>destinationPort = 1025, sourcePort = 1, levelValue = 0\<rparr>" "[]" "[]" 0]
  by auto

text \<open>
  Claim C6 as stated fails on the crosspoint action codecs, whose wire range is
  \<open>0..1023\<close>: \<^verbatim>\<open>validatePorts\<close> accepts 1024, \<^verbatim>\<open>createPayload\<close> of a level action with
  port 1024 returns a payload, and the request is enqueued.
\<close>

theorem C6_port_1024_counterexample:
  "validatePorts 1024 1024
   \<and> createPayload [\<lparr>destinationPort = 1024, sourcePort = 1024, levelValue = 0\<rparr>]
     = Inr [0x00, 0x01, 0x03, 0xFF, 0x03, 0xFF, 0x00, 0x00]
   \<and> submit (new_RequestCrosspointLevelActions
               [\<lparr>destinationPort = 1024, sourcePort = 1024, levelValue = 0\<rparr>] False None 0)
            (new_EclipseHCI 100)
     = (None, (new_EclipseHCI 100)\<lparr>messageQueue :=
          [(new_HCIRequest 0x0026 [0x00, 0x01, 0x03, 0xFF, 0x03, 0xFF, 0x00, 0x00] False None 0)
             \<lparr>ProtocolVersion := 1\<rparr>]\<rparr>)"
  by (simp add: validatePorts_def createPayload_def isValidLevel_def writeUInt16BE_def
      new_RequestCrosspointLevelActions_def submit_def addToQueue_def new_EclipseHCI_def
      new_HCIRequest_def)


end
